theory Spec2Isabelle
  imports Complex_Main "HOL-Library.AList"
begin


section \<open>JavaScript containers used by the frame index\<close>

text \<open>
  Array reads \<open>xs[i]\<close> give \<open>undefined\<close> outside the array; \<open>nth_opt\<close> returns
  \<open>None\<close> there. \<open>indexOf\<close> is \<open>Array.prototype.indexOf\<close>: the first position of the
  value, or \<open>-1\<close>.
\<close>

definition nth_opt :: "'a list \<Rightarrow> int \<Rightarrow> 'a option" where
  "nth_opt xs i = (if 0 \<le> i \<and> i < int (length xs) then Some (xs ! nat i) else None)"

fun indexOf :: "'a list \<Rightarrow> 'a \<Rightarrow> int" where
  "indexOf [] x = - 1"
| "indexOf (y # ys) x =
     (if y = x then 0 else (let i = indexOf ys x in if i = - 1 then - 1 else i + 1))"

text \<open>
  A JavaScript \<open>Set\<close> keeps its members in insertion order and ignores a member that is
  already present; \<open>Array.from\<close> lists them in that order. It is modelled by the list of
  its members.
\<close>

definition set_add :: "'a \<Rightarrow> 'a list \<Rightarrow> 'a list" where
  "set_add x xs = (if x \<in> set xs then xs else xs @ [x])"

definition new_Set :: "'a list \<Rightarrow> 'a list" where
  "new_Set xs = fold set_add xs []"

text \<open>
  A JavaScript \<open>Map\<close> is an association list in insertion order: \<open>Map.set\<close> overwrites the
  value of a present key in place and appends a new key (\<open>AList.update\<close>).
\<close>

type_synonym ('k, 'v) js_map = "('k \<times> 'v) list"

definition map_has :: "('k, 'v) js_map \<Rightarrow> 'k \<Rightarrow> bool" where
  "map_has m k = (map_of m k \<noteq> None)"

definition map_values :: "('k, 'v) js_map \<Rightarrow> 'v list" where
  "map_values m = map snd m"

section \<open>Data model of useFrameIndex\<close>

text \<open>
  Frames carry their timestamp in the field \<open>rfc460Timestamp\<close>; window frames also carry
  \<open>gameState\<close>. The remaining fields are never read by the hook and are kept as one
  opaque body. The timestamp type is a parameter: the conversion \<open>toEpochMillis\<close> and
  the test \<open>isTerminalGameState\<close> live in utils/timestampUtils, outside the sources at
  hand, and are passed to the operations as arguments. Epoch keys are integers.
\<close>

record ('t, 'a) FrameWindow =
  rfc460Timestamp :: 't
  gameState :: string
  windowBody :: 'a

record ('t, 'b) FrameDetails =
  rfc460TimestampD :: 't
  detailsBody :: 'b

record ('t, 'a, 'b, 'm) FrameIndexState =
  framesWindow :: "(int, ('t, 'a) FrameWindow) js_map"
  framesDetails :: "(int, ('t, 'b) FrameDetails) js_map"
  orderedTimestamps :: "int list"
  hasFirstFrame :: bool
  isBackfilling :: bool
  livePointer :: int
  playbackPointer :: "int option"
  metadata :: "'m option"
  isFinal :: bool
  isLivePaused :: bool
  desiredLagMs :: real
  speedFactor :: real
  displayIndex :: int
  playQueue :: "int list"

record MergeResult =
  changed :: bool
  addedEarlier :: bool
  addedLater :: bool
  hasFramesAfter :: bool

definition BACKFILL_STEP_MS :: int where "BACKFILL_STEP_MS = 10000"
definition BACKFILL_CONCURRENCY :: nat where "BACKFILL_CONCURRENCY = 10"
definition DEFAULT_DESIRED_LAG_MS :: real where "DEFAULT_DESIRED_LAG_MS = 10000"
definition MIN_FRAME_MS :: real where "MIN_FRAME_MS = 150"
definition MAX_FRAME_MS :: real where "MAX_FRAME_MS = 4000"
definition MAX_SPEED_FACTOR :: real where "MAX_SPEED_FACTOR = 10"

definition createInitialState :: "('t, 'a, 'b, 'm) FrameIndexState" where
  "createInitialState =
     \<lparr> framesWindow = [], framesDetails = [], orderedTimestamps = [],
       hasFirstFrame = False, isBackfilling = False, livePointer = - 1,
       playbackPointer = None, metadata = None, isFinal = False,
       isLivePaused = False, desiredLagMs = DEFAULT_DESIRED_LAG_MS, speedFactor = 1,
       displayIndex = - 1, playQueue = [] \<rparr>"

text \<open>The hook's \<open>displayedTs\<close>: the timestamp that \<open>displayIndex\<close> resolves to.\<close>

definition displayedTs :: "('t, 'a, 'b, 'm) FrameIndexState \<Rightarrow> int option" where
  "displayedTs s = nth_opt (orderedTimestamps s) (displayIndex s)"

text \<open>The hook's \<open>selectedTimestamp\<close>: the timestamp of the manual selection.\<close>

definition selectedTimestamp :: "('t, 'a, 'b, 'm) FrameIndexState \<Rightarrow> int option" where
  "selectedTimestamp s =
     (case playbackPointer s of None \<Rightarrow> None | Some p \<Rightarrow> nth_opt (orderedTimestamps s) p)"

section \<open>mergeFrames\<close>

text \<open>
  \<open>mergeFrames\<close> below is the effect of one call on the state, that is the state its
  updater produces from \<open>prev\<close>, paired with the flags as the updater assigns them.
  The state read through \<open>stateRef.current\<close> at the call and the updater's \<open>prev\<close>
  are the same value. React runs the updater after the call has returned: what a
  caller receives from the call itself is given by \<open>mergeFramesE\<close> further down. The
  parts of the updater are named after the local variables they compute.
\<close>

definition first_opt :: "'a list \<Rightarrow> 'a option" where
  "first_opt xs = (case xs of [] \<Rightarrow> None | x # _ \<Rightarrow> Some x)"

definition last_opt :: "'a list \<Rightarrow> 'a option" where
  "last_opt xs = (if xs = [] then None else Some (last xs))"

text \<open>Epochs of the incoming frames that are unknown to both maps and later than the latest
  known timestamp (the members of \<open>newLaterFrames\<close>, in insertion order).\<close>

definition isNewLater :: "('t, 'a, 'b, 'm) FrameIndexState \<Rightarrow> int \<Rightarrow> bool" where
  "isNewLater prev epoch =
     (\<not> map_has (framesWindow prev) epoch \<and> \<not> map_has (framesDetails prev) epoch \<and>
      (case last_opt (orderedTimestamps prev) of
         None \<Rightarrow> True
       | Some prevLatestTs \<Rightarrow> epoch > prevLatestTs))"

definition newLaterFrames ::
  "('t \<Rightarrow> int) \<Rightarrow> ('t, 'a, 'b, 'm) FrameIndexState \<Rightarrow>
   ('t, 'a) FrameWindow list \<Rightarrow> ('t, 'b) FrameDetails list \<Rightarrow> int list" where
  "newLaterFrames toEpochMillis prev windowFrames detailFrames =
     fold set_add
       (filter (isNewLater prev) (map (\<lambda>frame. toEpochMillis (rfc460Timestamp frame)) windowFrames) @
        filter (isNewLater prev) (map (\<lambda>frame. toEpochMillis (rfc460TimestampD frame)) detailFrames))
       []"

definition nextWindow ::
  "('t \<Rightarrow> int) \<Rightarrow> ('t, 'a, 'b, 'm) FrameIndexState \<Rightarrow>
   ('t, 'a) FrameWindow list \<Rightarrow> (int, ('t, 'a) FrameWindow) js_map" where
  "nextWindow toEpochMillis prev windowFrames =
     fold (\<lambda>frame m. AList.update (toEpochMillis (rfc460Timestamp frame)) frame m)
       windowFrames (framesWindow prev)"

definition nextDetails ::
  "('t \<Rightarrow> int) \<Rightarrow> ('t, 'a, 'b, 'm) FrameIndexState \<Rightarrow>
   ('t, 'b) FrameDetails list \<Rightarrow> (int, ('t, 'b) FrameDetails) js_map" where
  "nextDetails toEpochMillis prev detailFrames =
     fold (\<lambda>frame m. AList.update (toEpochMillis (rfc460TimestampD frame)) frame m)
       detailFrames (framesDetails prev)"

definition timestampSet ::
  "('t \<Rightarrow> int) \<Rightarrow> ('t, 'a, 'b, 'm) FrameIndexState \<Rightarrow>
   ('t, 'a) FrameWindow list \<Rightarrow> ('t, 'b) FrameDetails list \<Rightarrow> int list" where
  "timestampSet toEpochMillis prev windowFrames detailFrames =
     fold set_add
       (map (\<lambda>frame. toEpochMillis (rfc460Timestamp frame)) windowFrames @
        map (\<lambda>frame. toEpochMillis (rfc460TimestampD frame)) detailFrames)
       (new_Set (orderedTimestamps prev))"

text \<open>\<open>Array.from(timestampSet).sort((a, b) => a - b)\<close>: ascending numeric order.\<close>

definition sortedTimestamps ::
  "('t \<Rightarrow> int) \<Rightarrow> ('t, 'a, 'b, 'm) FrameIndexState \<Rightarrow>
   ('t, 'a) FrameWindow list \<Rightarrow> ('t, 'b) FrameDetails list \<Rightarrow> int list" where
  "sortedTimestamps toEpochMillis prev windowFrames detailFrames =
     sort (timestampSet toEpochMillis prev windowFrames detailFrames)"

definition didAddEarlier :: "int list \<Rightarrow> int list \<Rightarrow> bool" where
  "didAddEarlier prevTs sortedTs =
     (sortedTs \<noteq> [] \<and>
      (case first_opt prevTs of None \<Rightarrow> True | Some prevEarliest \<Rightarrow> hd sortedTs < prevEarliest))"

definition didAddLater :: "int list \<Rightarrow> int list \<Rightarrow> bool" where
  "didAddLater prevTs sortedTs =
     (sortedTs \<noteq> [] \<and>
      (case last_opt prevTs of None \<Rightarrow> True | Some prevLatest \<Rightarrow> last sortedTs > prevLatest))"

definition newLivePointer :: "int list \<Rightarrow> int" where
  "newLivePointer sortedTs = (if sortedTs \<noteq> [] then int (length sortedTs) - 1 else - 1)"

text \<open>The remapped \<open>playbackPointer\<close> (source lines 322 to 331).\<close>

definition newPlaybackPointer :: "('t, 'a, 'b, 'm) FrameIndexState \<Rightarrow> int list \<Rightarrow> int option" where
  "newPlaybackPointer prev sortedTs =
     (case playbackPointer prev of
        None \<Rightarrow> None
      | Some p \<Rightarrow>
          (case nth_opt (orderedTimestamps prev) p of
             Some prevPointerTs \<Rightarrow>
               (let newIndex = indexOf sortedTs prevPointerTs
                in if newIndex = - 1 then None else Some newIndex)
           | None \<Rightarrow> None))"

text \<open>The first computation of \<open>displayIndex\<close> (source lines 334 to 376).\<close>

definition boundedDisplayIndex :: "('t, 'a, 'b, 'm) FrameIndexState \<Rightarrow> int list \<Rightarrow> int" where
  "boundedDisplayIndex prev sortedTs =
     (if sortedTs = [] then - 1
      else
        let livePtr = newLivePointer sortedTs;
            d1 = (case displayedTs prev of
                    Some prevDisplayTs \<Rightarrow>
                      (let newIndex = indexOf sortedTs prevDisplayTs
                       in if newIndex \<noteq> - 1 then newIndex
                          else if playbackPointer prev = None then livePtr
                          else displayIndex prev)
                  | None \<Rightarrow> displayIndex prev);
            d2 = (if d1 \<ge> int (length sortedTs) then int (length sortedTs) - 1 else d1)
        in if d2 < 0 \<and> newPlaybackPointer prev sortedTs = None \<and> livePtr \<ge> 0 then livePtr else d2)"

text \<open>The play queue extended by newly appended frames (source lines 379 to 410).\<close>

definition extendedPlayQueue ::
  "('t, 'a, 'b, 'm) FrameIndexState \<Rightarrow> int list \<Rightarrow> int list \<Rightarrow> int list" where
  "extendedPlayQueue prev sortedTs newLater =
     (if playbackPointer prev = None \<and> newLater \<noteq> [] then
        let newLaterSorted = sort newLater;
            dIdx = boundedDisplayIndex prev sortedTs;
            lastQueuedIndex =
              (if playQueue prev \<noteq> [] then last (playQueue prev)
               else if dIdx \<ge> 0 then dIdx else newLivePointer sortedTs);
            newIndices = filter (\<lambda>newIndex. newIndex > lastQueuedIndex)
                           (map (indexOf sortedTs) newLaterSorted)
        in if newIndices \<noteq> [] then sort (new_Set (playQueue prev @ newIndices))
           else playQueue prev
      else playQueue prev)"

text \<open>The play queue remapped by timestamp after a backfill (source lines 414 to 436).\<close>

definition adjustedQueue :: "('t, 'a, 'b, 'm) FrameIndexState \<Rightarrow> int list \<Rightarrow> int list" where
  "adjustedQueue prev sortedTs =
     sort (filter (\<lambda>newIndex. newIndex \<noteq> - 1)
             (map (indexOf sortedTs)
                (List.map_filter (nth_opt (orderedTimestamps prev)) (playQueue prev))))"

definition newPlayQueue ::
  "('t, 'a, 'b, 'm) FrameIndexState \<Rightarrow> int list \<Rightarrow> int list \<Rightarrow> int list" where
  "newPlayQueue prev sortedTs newLater =
     (if didAddEarlier (orderedTimestamps prev) sortedTs \<and> playbackPointer prev = None \<and>
         playQueue prev \<noteq> []
      then adjustedQueue prev sortedTs
      else extendedPlayQueue prev sortedTs newLater)"

text \<open>
  The backfill handling of \<open>displayIndex\<close> (source lines 440 to 462). It is guarded by
  \<open>prev.playbackPointer === null\<close>, where \<open>currentTimestampToMaintain\<close> is
  \<open>prevDisplayTs\<close>.
\<close>

definition maintainedDisplayIndex :: "('t, 'a, 'b, 'm) FrameIndexState \<Rightarrow> int list \<Rightarrow> int" where
  "maintainedDisplayIndex prev sortedTs =
     (let d = boundedDisplayIndex prev sortedTs
      in if didAddEarlier (orderedTimestamps prev) sortedTs \<and> playbackPointer prev = None then
           (case displayedTs prev of
              Some currentTimestampToMaintain \<Rightarrow>
                (let maintainedIndex = indexOf sortedTs currentTimestampToMaintain
                 in if maintainedIndex \<noteq> - 1 then maintainedIndex else d)
            | None \<Rightarrow> d)
         else d)"

text \<open>The final safety check on \<open>displayIndex\<close> (source lines 465 to 481).\<close>

definition newDisplayIndex :: "('t, 'a, 'b, 'm) FrameIndexState \<Rightarrow> int list \<Rightarrow> int" where
  "newDisplayIndex prev sortedTs =
     (let d = maintainedDisplayIndex prev sortedTs
      in if playbackPointer prev = None \<and> d \<ge> 0 then
           (case displayedTs prev of
              Some prevDisplayTs \<Rightarrow>
                (case nth_opt sortedTs d of
                   Some currentDisplayTimestamp \<Rightarrow>
                     (if currentDisplayTimestamp < prevDisplayTs then
                        (let safeIndex = indexOf sortedTs prevDisplayTs
                         in if safeIndex \<noteq> - 1 then safeIndex else d)
                      else d)
                 | None \<Rightarrow> d)
            | None \<Rightarrow> d)
         else d)"

definition mergeFrames ::
  "('t \<Rightarrow> int) \<Rightarrow> (string \<Rightarrow> bool) \<Rightarrow>
   ('t, 'a) FrameWindow list \<Rightarrow> ('t, 'b) FrameDetails list \<Rightarrow> 'm option \<Rightarrow>
   ('t, 'a, 'b, 'm) FrameIndexState \<Rightarrow> MergeResult \<times> ('t, 'a, 'b, 'm) FrameIndexState" where
  "mergeFrames toEpochMillis isTerminalGameState windowFrames detailFrames metadata' prev =
     (let hasPayload = (windowFrames \<noteq> [] \<or> detailFrames \<noteq> []);
          shouldSetMetadata = (metadata' \<noteq> None \<and> metadata prev = None)
      in if \<not> hasPayload \<and> \<not> shouldSetMetadata then
           (\<lparr> changed = False, addedEarlier = False, addedLater = False,
              hasFramesAfter = (orderedTimestamps prev \<noteq> []) \<rparr>, prev)
         else
           let hasTerminalState = list_ex (\<lambda>frame. isTerminalGameState (gameState frame)) windowFrames;
               sortedTs = sortedTimestamps toEpochMillis prev windowFrames detailFrames;
               metadataMutated = (metadata prev = None \<and> metadata' \<noteq> None);
               metadataToUse = (if metadataMutated then metadata' else metadata prev);
               timestampsChanged = (sortedTs \<noteq> orderedTimestamps prev)
           in if \<not> hasPayload \<and> \<not> timestampsChanged \<and> \<not> metadataMutated then
                (\<lparr> changed = False, addedEarlier = False, addedLater = False,
                   hasFramesAfter = (sortedTs \<noteq> []) \<rparr>, prev)
              else
                let nextW = nextWindow toEpochMillis prev windowFrames;
                    existingTerminal =
                      (isFinal prev \<or>
                       list_ex (\<lambda>f. isTerminalGameState (gameState f)) (map_values nextW))
                in (\<lparr> changed = True,
                      addedEarlier = didAddEarlier (orderedTimestamps prev) sortedTs,
                      addedLater = didAddLater (orderedTimestamps prev) sortedTs,
                      hasFramesAfter = (sortedTs \<noteq> []) \<rparr>,
                    prev\<lparr> framesWindow := nextW,
                          framesDetails := nextDetails toEpochMillis prev detailFrames,
                          orderedTimestamps := sortedTs,
                          livePointer := newLivePointer sortedTs,
                          playbackPointer := newPlaybackPointer prev sortedTs,
                          displayIndex := newDisplayIndex prev sortedTs,
                          metadata := metadataToUse,
                          isFinal := (existingTerminal \<or> hasTerminalState),
                          playQueue :=
                            newPlayQueue prev sortedTs
                              (newLaterFrames toEpochMillis prev windowFrames detailFrames) \<rparr>))"

section \<open>The hook's mutable references\<close>

text \<open>
  Besides the React state the hook keeps mutable references. \<open>schedulerTimerRef\<close> holds
  the pending timer, here the delay it was armed with. The two anchor references are
  written by \<open>startScheduler\<close> and never read, and are left out.

  \<open>setFrameState\<close> hands its updater to React, which runs it, and stores the result
  in \<open>stateRef.current\<close>, after the calling code has finished its turn. In an engine
  value \<open>stateRef\<close> is the state with every updater handed over so far applied. Code
  that reads \<open>stateRef.current\<close> in the same turn as a \<open>setFrameState\<close> call still
  finds the earlier state: \<open>seeing seen operation\<close> runs an operation that reads the
  state and writes references only, with \<open>seen\<close> as the state it finds.
\<close>

record ('t, 'a, 'b, 'm) Engine =
  stateRef :: "('t, 'a, 'b, 'm) FrameIndexState"
  isMountedRef :: bool
  backfillRunningRef :: bool
  backfillStartedRef :: bool
  cancelBackfillRef :: bool
  backfillCursorRef :: "int option"
  schedulerTimerRef :: "real option"

definition setFrameState ::
  "(('t, 'a, 'b, 'm) FrameIndexState \<Rightarrow> ('t, 'a, 'b, 'm) FrameIndexState) \<Rightarrow>
   ('t, 'a, 'b, 'm) Engine \<Rightarrow> ('t, 'a, 'b, 'm) Engine" where
  "setFrameState updater e = e\<lparr> stateRef := updater (stateRef e) \<rparr>"

definition seeing ::
  "('t, 'a, 'b, 'm) FrameIndexState \<Rightarrow>
   (('t, 'a, 'b, 'm) Engine \<Rightarrow> ('t, 'a, 'b, 'm) Engine) \<Rightarrow>
   ('t, 'a, 'b, 'm) Engine \<Rightarrow> ('t, 'a, 'b, 'm) Engine" where
  "seeing seen operation e = (operation (e\<lparr> stateRef := seen \<rparr>))\<lparr> stateRef := stateRef e \<rparr>"

text \<open>
  A call of the hook's \<open>mergeFrames\<close>. The flags are set inside the updater (source
  lines 296 to 298 and 483 to 486) and returned at line 515 before the updater has
  run, so the caller receives them as they were initialised at lines 206 to 209;
  the state is the one the updater produces.
\<close>

definition mergeFramesE ::
  "('t \<Rightarrow> int) \<Rightarrow> (string \<Rightarrow> bool) \<Rightarrow>
   ('t, 'a) FrameWindow list \<Rightarrow> ('t, 'b) FrameDetails list \<Rightarrow> 'm option \<Rightarrow>
   ('t, 'a, 'b, 'm) Engine \<Rightarrow> MergeResult \<times> ('t, 'a, 'b, 'm) Engine" where
  "mergeFramesE toEpochMillis isTerminalGameState windowFrames detailFrames metadata' e =
     (\<lparr> changed = False, addedEarlier = False, addedLater = False,
        hasFramesAfter = (orderedTimestamps (stateRef e) \<noteq> []) \<rparr>,
      e\<lparr> stateRef := snd (mergeFrames toEpochMillis isTerminalGameState windowFrames
                            detailFrames metadata' (stateRef e)) \<rparr>)"

definition markHasFirstFrame :: "('t, 'a, 'b, 'm) Engine \<Rightarrow> ('t, 'a, 'b, 'm) Engine" where
  "markHasFirstFrame e =
     (setFrameState
        (\<lambda>prev. if hasFirstFrame prev then
                   (if isBackfilling prev then prev\<lparr> isBackfilling := False \<rparr> else prev)
                 else prev\<lparr> hasFirstFrame := True, isBackfilling := False \<rparr>) e)
     \<lparr> backfillCursorRef := None \<rparr>"

section \<open>Playback scheduler\<close>

definition stopScheduler :: "('t, 'a, 'b, 'm) Engine \<Rightarrow> ('t, 'a, 'b, 'm) Engine" where
  "stopScheduler e = e\<lparr> schedulerTimerRef := None \<rparr>"

definition showNextFrameUpdater ::
  "('t, 'a, 'b, 'm) FrameIndexState \<Rightarrow> ('t, 'a, 'b, 'm) FrameIndexState" where
  "showNextFrameUpdater prev =
     (case playbackPointer prev of
        Some p \<Rightarrow>
          (let nextIndex = p + 1; livePtr = livePointer prev
           in if nextIndex \<le> livePtr then
                prev\<lparr> playbackPointer := Some nextIndex, displayIndex := nextIndex \<rparr>
              else if \<not> isFinal prev then
                prev\<lparr> playbackPointer := None, displayIndex := livePointer prev,
                      isLivePaused := False \<rparr>
              else prev\<lparr> isLivePaused := True \<rparr>)
      | None \<Rightarrow>
          (if playQueue prev = [] \<or> isLivePaused prev then prev
           else prev\<lparr> displayIndex := hd (playQueue prev), playQueue := tl (playQueue prev) \<rparr>))"

definition showNextFrame :: "('t, 'a, 'b, 'm) Engine \<Rightarrow> ('t, 'a, 'b, 'm) Engine" where
  "showNextFrame e = (if \<not> isMountedRef e then e else setFrameState showNextFrameUpdater e)"

text \<open>
  The spacing \<open>rawDelta\<close> that \<open>scheduleNextFrame\<close> reads off the state, or \<open>None\<close>
  on the paths where it arms no timer. In manual mode it is the distance from the
  selected timestamp to the next one; in live mode the distance from the displayed
  timestamp to the head of the play queue (\<open>MIN_FRAME_MS\<close> when there is no previous
  timestamp).
\<close>

definition rawDelta :: "('t, 'a, 'b, 'm) FrameIndexState \<Rightarrow> real option" where
  "rawDelta currentState =
     (case playbackPointer currentState of
        Some p \<Rightarrow>
          (if isLivePaused currentState \<or> p \<ge> livePointer currentState then None
           else
             (case (nth_opt (orderedTimestamps currentState) (p + 1),
                    nth_opt (orderedTimestamps currentState) p) of
                (Some nextTs, Some currentTs) \<Rightarrow> Some (real_of_int (nextTs - currentTs))
              | _ \<Rightarrow> None))
      | None \<Rightarrow>
          (if playQueue currentState = [] \<or> isLivePaused currentState then None
           else
             let nextIndex = hd (playQueue currentState)
             in (case nth_opt (orderedTimestamps currentState) nextIndex of
                   None \<Rightarrow> None
                 | Some nextTs \<Rightarrow>
                     (let previousIndex =
                            (if displayIndex currentState \<ge> 0 then displayIndex currentState
                             else nextIndex - 1);
                          previousTs =
                            (if previousIndex \<ge> 0
                             then nth_opt (orderedTimestamps currentState) previousIndex
                             else None)
                      in (case previousTs of
                            Some prevTs \<Rightarrow> Some (real_of_int (nextTs - prevTs))
                          | None \<Rightarrow> Some MIN_FRAME_MS)))))"

text \<open>
  The delay of one step: the spacing divided by the speed factor, clamped to
  \<open>[MIN_FRAME_MS, MAX_FRAME_MS]\<close>. Numbers are real numbers here; the divisions by 1
  and by 2 that are compared below are exact in floating point as well.
\<close>

definition stepDelay :: "real \<Rightarrow> real \<Rightarrow> real" where
  "stepDelay delta factor =
     (let adjustedDelta = (if delta > 0 then delta / factor else MIN_FRAME_MS)
      in max MIN_FRAME_MS (min MAX_FRAME_MS adjustedDelta))"

definition scheduleNextFrame :: "('t, 'a, 'b, 'm) Engine \<Rightarrow> ('t, 'a, 'b, 'm) Engine" where
  "scheduleNextFrame e =
     (if \<not> isMountedRef e then e
      else
        (case rawDelta (stateRef e) of
           None \<Rightarrow> e\<lparr> schedulerTimerRef := None \<rparr>
         | Some delta \<Rightarrow>
             e\<lparr> schedulerTimerRef := Some (stepDelay delta (speedFactor (stateRef e))) \<rparr>))"

text \<open>
  The callback of the scheduler's timer: \<open>showNextFrame\<close>, then \<open>scheduleNextFrame\<close>,
  which still finds the state from before the step.
\<close>

definition timerFires :: "('t, 'a, 'b, 'm) Engine \<Rightarrow> ('t, 'a, 'b, 'm) Engine" where
  "timerFires e = seeing (stateRef e) scheduleNextFrame (showNextFrame e)"

definition startScheduler :: "('t, 'a, 'b, 'm) Engine \<Rightarrow> ('t, 'a, 'b, 'm) Engine" where
  "startScheduler e = (if schedulerTimerRef e \<noteq> None then e else scheduleNextFrame e)"

section \<open>Playback controls\<close>

definition pauseLive :: "('t, 'a, 'b, 'm) Engine \<Rightarrow> ('t, 'a, 'b, 'm) Engine" where
  "pauseLive e = setFrameState (\<lambda>prev. prev\<lparr> isLivePaused := True \<rparr>) (stopScheduler e)"

definition resumeLive :: "('t, 'a, 'b, 'm) Engine \<Rightarrow> ('t, 'a, 'b, 'm) Engine" where
  "resumeLive e =
     seeing (stateRef e) startScheduler
       (setFrameState (\<lambda>prev. prev\<lparr> isLivePaused := False \<rparr>) e)"

definition setDesiredLagMs :: "real \<Rightarrow> ('t, 'a, 'b, 'm) Engine \<Rightarrow> ('t, 'a, 'b, 'm) Engine" where
  "setDesiredLagMs ms e = setFrameState (\<lambda>prev. prev\<lparr> desiredLagMs := ms \<rparr>) e"

definition setSpeedFactor :: "real \<Rightarrow> ('t, 'a, 'b, 'm) Engine \<Rightarrow> ('t, 'a, 'b, 'm) Engine" where
  "setSpeedFactor factor e =
     setFrameState (\<lambda>prev. prev\<lparr> speedFactor := max 0.5 (min MAX_SPEED_FACTOR factor) \<rparr>) e"

definition goLive :: "('t, 'a, 'b, 'm) Engine \<Rightarrow> ('t, 'a, 'b, 'm) Engine" where
  "goLive e =
     (let e' = setFrameState
                 (\<lambda>prev. if playbackPointer prev = None then prev
                         else prev\<lparr> playbackPointer := None, displayIndex := livePointer prev,
                                    isLivePaused := False \<rparr>) e
      in if schedulerTimerRef e' = None then seeing (stateRef e) startScheduler e' else e')"

text \<open>
  Modelled from the spec: \<open>findClosestTimestampIndex\<close> of utils/timestampUtils is not
  among the sources. The spec calls its result "the index closest to the requested
  timestamp"; the caller treats a negative result as "none". The model returns \<open>-1\<close>
  on an empty array and otherwise the first index whose timestamp has the least
  distance to the requested epoch.
\<close>

definition findClosestTimestampIndex :: "int list \<Rightarrow> int \<Rightarrow> int" where
  "findClosestTimestampIndex timestamps epoch =
     (case map (\<lambda>ts. \<bar>ts - epoch\<bar>) timestamps of
        [] \<Rightarrow> - 1
      | d # ds \<Rightarrow> indexOf (d # ds) (fold min ds d))"

definition setPlaybackByEpoch :: "int \<Rightarrow> ('t, 'a, 'b, 'm) Engine \<Rightarrow> ('t, 'a, 'b, 'm) Engine" where
  "setPlaybackByEpoch epoch e =
     (let prev = stateRef e
      in if orderedTimestamps prev = [] then e
         else
           let index = findClosestTimestampIndex (orderedTimestamps prev) epoch
           in if index < 0 then e
              else if playbackPointer prev = Some index then e
              else (stopScheduler e)
                     \<lparr> stateRef := prev\<lparr> playbackPointer := Some index, displayIndex := index,
                                         isLivePaused := True \<rparr> \<rparr>)"

text \<open>The hook's \<open>isLive\<close>.\<close>

definition isLive :: "('t, 'a, 'b, 'm) FrameIndexState \<Rightarrow> bool" where
  "isLive s = (playbackPointer s = None)"

section \<open>Sequences of engine operations\<close>

datatype ('t, 'a, 'b, 'm) command =
    Merge "('t, 'a) FrameWindow list" "('t, 'b) FrameDetails list" "'m option"
  | TimerFires
  | StartScheduler
  | PauseLive
  | ResumeLive
  | GoLive
  | ScrubTo int
  | SetDesiredLagMs real
  | SetSpeedFactor real
  | MarkHasFirstFrame

fun isSetSpeedFactor :: "('t, 'a, 'b, 'm) command \<Rightarrow> bool" where
  "isSetSpeedFactor (SetSpeedFactor _) = True"
| "isSetSpeedFactor _ = False"

fun perform ::
  "('t \<Rightarrow> int) \<Rightarrow> (string \<Rightarrow> bool) \<Rightarrow> ('t, 'a, 'b, 'm) command \<Rightarrow>
   ('t, 'a, 'b, 'm) Engine \<Rightarrow> ('t, 'a, 'b, 'm) Engine" where
  "perform E T (Merge ws ds md) e = snd (mergeFramesE E T ws ds md e)"
| "perform E T TimerFires e = timerFires e"
| "perform E T StartScheduler e = startScheduler e"
| "perform E T PauseLive e = pauseLive e"
| "perform E T ResumeLive e = resumeLive e"
| "perform E T GoLive e = goLive e"
| "perform E T (ScrubTo epoch) e = setPlaybackByEpoch epoch e"
| "perform E T (SetDesiredLagMs ms) e = setDesiredLagMs ms e"
| "perform E T (SetSpeedFactor factor) e = setSpeedFactor factor e"
| "perform E T MarkHasFirstFrame e = markHasFirstFrame e"

definition performAll ::
  "('t \<Rightarrow> int) \<Rightarrow> (string \<Rightarrow> bool) \<Rightarrow> ('t, 'a, 'b, 'm) command list \<Rightarrow>
   ('t, 'a, 'b, 'm) Engine \<Rightarrow> ('t, 'a, 'b, 'm) Engine" where
  "performAll E T cs e = fold (perform E T) cs e"

text \<open>A sequence of merges applied to a state, one after the other.\<close>

fun mergeAll ::
  "('t \<Rightarrow> int) \<Rightarrow> (string \<Rightarrow> bool) \<Rightarrow>
   (('t, 'a) FrameWindow list \<times> ('t, 'b) FrameDetails list \<times> 'm option) list \<Rightarrow>
   ('t, 'a, 'b, 'm) FrameIndexState \<Rightarrow> ('t, 'a, 'b, 'm) FrameIndexState" where
  "mergeAll E T [] s = s"
| "mergeAll E T ((ws, ds, md) # rest) s = mergeAll E T rest (snd (mergeFrames E T ws ds md s))"

section \<open>Backfill\<close>

text \<open>
  Modelled from the spec: \<open>roundToPrevious10s\<close> of utils/timestampUtils is not among
  the sources. The spec describes the cursor as "the earliest known frame rounded down
  to the feed's granularity", a 10-second boundary; on epoch milliseconds that is the
  greatest multiple of 10000 not above the argument.
\<close>

definition roundToPrevious10s :: "int \<Rightarrow> int" where
  "roundToPrevious10s ts = ts - ts mod 10000"

text \<open>
  The upstream source is a parameter: \<open>upstream targetCursor attempt\<close> is what the pair
  of requests (window and details) for the slice starting at \<open>targetCursor\<close> answers
  at the given attempt, \<open>None\<close> when the request fails. \<open>fetchWithRetry\<close> is the body of
  one fetch promise of \<open>runBackfill\<close>: up to \<open>maxRetries + 1\<close> attempts, \<open>null\<close> when
  all of them fail. Delays and jitter take time only and are left out, except that
  React runs the updaters handed over so far while the loop waits between two passes;
  no stop or unmount arrives while a run is under way, so the two cancellation checks
  inside the promise never fire.
\<close>

type_synonym ('t, 'a, 'b, 'm) chunk =
  "('t, 'a) FrameWindow list \<times> ('t, 'b) FrameDetails list \<times> 'm option"

type_synonym ('t, 'a, 'b, 'm) upstream = "int \<Rightarrow> nat \<Rightarrow> ('t, 'a, 'b, 'm) chunk option"

definition maxRetries :: nat where "maxRetries = 3"

function fetchWithRetry ::
  "('t, 'a, 'b, 'm) upstream \<Rightarrow> int \<Rightarrow> nat \<Rightarrow> (('t, 'a, 'b, 'm) chunk \<times> int) option" where
  "fetchWithRetry upstream targetCursor retryCount =
     (if retryCount \<le> maxRetries then
        (case upstream targetCursor retryCount of
           Some chunk \<Rightarrow> Some (chunk, targetCursor)
         | None \<Rightarrow>
             (if retryCount + 1 > maxRetries then None
              else fetchWithRetry upstream targetCursor (retryCount + 1)))
      else None)"
  by pat_completeness auto
termination
  by (relation "measure (\<lambda>(upstream, targetCursor, retryCount). Suc maxRetries - retryCount)")
     auto

text \<open>The time slices of one batch, stepping further back from the cursor.\<close>

definition targetTimestamps :: "int \<Rightarrow> int list" where
  "targetTimestamps currentCursor =
     map (\<lambda>i. currentCursor - BACKFILL_STEP_MS * int i) [0..<BACKFILL_CONCURRENCY]"

text \<open>
  The pass over the settled results of a batch. \<open>earliestFetchedTimestamp\<close> starts at
  positive infinity, here \<open>None\<close>. The merges of one pass are called in the same turn:
  each returns its flags before any updater has run (so \<open>changed\<close> is false), and the
  updaters run later, one after the other, each on the state the one before it
  produced. Every merge of the pass carries frames, so the check at source line 215
  lets it through whatever state it reads.
\<close>

record BatchProgress =
  anyProgress :: bool
  sawFrames :: bool
  earliestFetchedTimestamp :: "int option"

definition processResult ::
  "('t \<Rightarrow> int) \<Rightarrow> (string \<Rightarrow> bool) \<Rightarrow> (('t, 'a, 'b, 'm) chunk \<times> int) option \<Rightarrow>
   ('t, 'a, 'b, 'm) Engine \<times> BatchProgress \<Rightarrow> ('t, 'a, 'b, 'm) Engine \<times> BatchProgress" where
  "processResult toEpochMillis isTerminalGameState result acc =
     (case acc of (e, progress) \<Rightarrow>
        (case result of
           None \<Rightarrow> (e, progress)
         | Some ((windowFrames, detailFrames, metadata'), targetCursor) \<Rightarrow>
             (if windowFrames \<noteq> [] \<or> detailFrames \<noteq> [] then
                (case mergeFramesE toEpochMillis isTerminalGameState windowFrames detailFrames
                        metadata' e of
                   (mergeResult, e') \<Rightarrow>
                     (e',
                      \<lparr> anyProgress = (anyProgress progress \<or> changed mergeResult),
                        sawFrames = True,
                        earliestFetchedTimestamp =
                          (case earliestFetchedTimestamp progress of
                             None \<Rightarrow> Some targetCursor
                           | Some earliest \<Rightarrow>
                               (if targetCursor < earliest then Some targetCursor
                                else Some earliest)) \<rparr>))
              else (e, progress))))"

definition processResults ::
  "('t \<Rightarrow> int) \<Rightarrow> (string \<Rightarrow> bool) \<Rightarrow> (('t, 'a, 'b, 'm) chunk \<times> int) option list \<Rightarrow>
   ('t, 'a, 'b, 'm) Engine \<Rightarrow> ('t, 'a, 'b, 'm) Engine \<times> BatchProgress" where
  "processResults toEpochMillis isTerminalGameState results e =
     fold (processResult toEpochMillis isTerminalGameState) results
       (e, \<lparr> anyProgress = False, sawFrames = False, earliestFetchedTimestamp = None \<rparr>)"

text \<open>The check that keeps the scheduler running in live mode.\<close>

definition ensureScheduler :: "('t, 'a, 'b, 'm) Engine \<Rightarrow> ('t, 'a, 'b, 'm) Engine" where
  "ensureScheduler e =
     (if orderedTimestamps (stateRef e) \<noteq> [] \<and> playbackPointer (stateRef e) = None \<and>
         \<not> isLivePaused (stateRef e) \<and> schedulerTimerRef e = None
      then startScheduler e else e)"

text \<open>
  The cursor a pass of the loop works with: the stored one, or, when none is stored,
  the earliest known timestamp rounded down, minus one step (\<open>None\<close> where the source
  leaves the loop because the index has no first element).
\<close>

definition backfillCursor :: "('t, 'a, 'b, 'm) Engine \<Rightarrow> int option" where
  "backfillCursor e =
     (case backfillCursorRef e of
        Some cursor \<Rightarrow> Some cursor
      | None \<Rightarrow>
          (case first_opt (orderedTimestamps (stateRef e)) of
             None \<Rightarrow> None
           | Some anchorTs \<Rightarrow> Some (roundToPrevious10s anchorTs - BACKFILL_STEP_MS)))"

text \<open>A settled fetch that brought no frame: it failed, or both frame lists are empty.\<close>

definition yieldsNoFrames :: "(('t, 'a, 'b, 'm) chunk \<times> int) option \<Rightarrow> bool" where
  "yieldsNoFrames result =
     (case result of
        None \<Rightarrow> True
      | Some ((windowFrames, detailFrames, metadata'), targetCursor) \<Rightarrow>
          windowFrames = [] \<and> detailFrames = [])"

text \<open>
  One pass through the body of the while loop of \<open>runBackfill\<close>, after the checks
  at its head. The result says whether the loop goes on (\<open>True\<close>) or was left by
  \<open>break\<close>. The integer cursor is always finite, so the list of targets is never empty
  and the fallback cursor is always a number. What the pass reads from
  \<open>stateRef.current\<close> after its merges (source lines 834, 851 and 866 to 869) is still
  the state from before them, \<open>stateRef e\<close>.
\<close>

definition backfillIteration ::
  "('t \<Rightarrow> int) \<Rightarrow> (string \<Rightarrow> bool) \<Rightarrow> ('t, 'a, 'b, 'm) upstream \<Rightarrow>
   ('t, 'a, 'b, 'm) Engine \<Rightarrow> bool \<times> ('t, 'a, 'b, 'm) Engine" where
  "backfillIteration toEpochMillis isTerminalGameState upstream e =
     (case backfillCursor e of
        None \<Rightarrow> (False, e)
      | Some currentCursor \<Rightarrow>
          (let seen = stateRef e;
               e0 = e\<lparr> backfillCursorRef := Some currentCursor \<rparr>;
               results = map (\<lambda>targetCursor. fetchWithRetry upstream targetCursor 0)
                           (targetTimestamps currentCursor)
           in (case processResults toEpochMillis isTerminalGameState results e0 of
                 (e1, progress) \<Rightarrow>
                   (if anyProgress progress then
                      (case first_opt (orderedTimestamps seen) of
                         None \<Rightarrow> (False, markHasFirstFrame e1)
                       | Some updatedEarliest \<Rightarrow>
                           (True,
                            seeing seen ensureScheduler
                              (e1\<lparr> backfillCursorRef :=
                                     Some (roundToPrevious10s updatedEarliest - BACKFILL_STEP_MS) \<rparr>)))
                    else if \<not> sawFrames progress then (False, markHasFirstFrame e1)
                    else
                      (case earliestFetchedTimestamp progress of
                         Some earliest \<Rightarrow>
                           (True,
                            seeing seen ensureScheduler
                              (e1\<lparr> backfillCursorRef := Some (earliest - BACKFILL_STEP_MS) \<rparr>))
                       | None \<Rightarrow>
                           (case first_opt (orderedTimestamps seen) of
                              Some updatedEarliest \<Rightarrow>
                                (True,
                                 seeing seen ensureScheduler
                                   (e1\<lparr> backfillCursorRef :=
                                          Some (roundToPrevious10s updatedEarliest
                                                - BACKFILL_STEP_MS) \<rparr>))
                            | None \<Rightarrow> (False, markHasFirstFrame e1)))))))"

text \<open>
  The while loop. It may run for ever, so it is given fuel: one unit per batch, and
  \<open>None\<close> when the fuel runs out before the loop is left. The number returned counts
  the batches that were issued. A pass that goes on ends by waiting (source lines 874
  to 878), so the head of the next pass finds the updaters of the pass applied. The
  state returned with the engine is the one \<open>stateRef.current\<close> holds when the loop is
  left: at the head of the loop the state of the engine, after a \<open>break\<close> the state
  from before the last pass.
\<close>

fun backfillLoop ::
  "('t \<Rightarrow> int) \<Rightarrow> (string \<Rightarrow> bool) \<Rightarrow> ('t, 'a, 'b, 'm) upstream \<Rightarrow> nat \<Rightarrow>
   ('t, 'a, 'b, 'm) Engine \<Rightarrow>
   (nat \<times> ('t, 'a, 'b, 'm) FrameIndexState \<times> ('t, 'a, 'b, 'm) Engine) option" where
  "backfillLoop toEpochMillis isTerminalGameState upstream fuel e =
     (if \<not> (isMountedRef e \<and> \<not> cancelBackfillRef e) then Some (0, stateRef e, e)
      else if hasFirstFrame (stateRef e) then Some (0, stateRef e, e)
      else if orderedTimestamps (stateRef e) = [] then Some (0, stateRef e, e)
      else
        (case fuel of
           0 \<Rightarrow> None
         | Suc fuel' \<Rightarrow>
             (case backfillIteration toEpochMillis isTerminalGameState upstream e of
                (False, e') \<Rightarrow> Some (1, stateRef e, e')
              | (True, e') \<Rightarrow>
                  (case backfillLoop toEpochMillis isTerminalGameState upstream fuel' e' of
                     None \<Rightarrow> None
                   | Some (n, seen, e'') \<Rightarrow> Some (Suc n, seen, e'')))))"

text \<open>
  \<open>runBackfill\<close>: the loop between its bookkeeping. The \<open>finally\<close> block reads
  \<open>stateRef.current\<close> in the turn in which the loop was left.
\<close>

definition runBackfill ::
  "string \<Rightarrow> ('t \<Rightarrow> int) \<Rightarrow> (string \<Rightarrow> bool) \<Rightarrow> ('t, 'a, 'b, 'm) upstream \<Rightarrow> nat \<Rightarrow>
   ('t, 'a, 'b, 'm) Engine \<Rightarrow> (nat \<times> ('t, 'a, 'b, 'm) Engine) option" where
  "runBackfill gameId toEpochMillis isTerminalGameState upstream fuel e =
     (if gameId = [] then Some (0, e)
      else if backfillRunningRef e then Some (0, e)
      else
        let e1 = setFrameState
                   (\<lambda>prev. if isBackfilling prev then prev else prev\<lparr> isBackfilling := True \<rparr>)
                   (e\<lparr> backfillRunningRef := True, cancelBackfillRef := False \<rparr>)
        in (case backfillLoop toEpochMillis isTerminalGameState upstream fuel e1 of
              None \<Rightarrow> None
            | Some (n, seen, e2) \<Rightarrow>
                Some (n,
                  seeing seen ensureScheduler
                    (setFrameState
                       (\<lambda>prev. if isBackfilling prev then prev\<lparr> isBackfilling := False \<rparr>
                               else prev)
                       (e2\<lparr> backfillRunningRef := False,
                            backfillStartedRef := hasFirstFrame seen \<rparr>)))))"


section \<open>Example sessions\<close>

definition frameAt :: "int \<Rightarrow> (int, unit) FrameWindow" where
  "frameAt t = \<lparr> rfc460Timestamp = t, gameState = ''in_game'', windowBody = () \<rparr>"

definition isTerminalExample :: "string \<Rightarrow> bool" where
  "isTerminalExample st = (st = ''finished'')"

definition liveStateAt :: "int list \<Rightarrow> (int, unit, unit, unit) FrameIndexState" where
  "liveStateAt tss =
     \<lparr> framesWindow = map (\<lambda>t. (t, frameAt t)) tss, framesDetails = [],
       orderedTimestamps = tss,
       hasFirstFrame = False, isBackfilling = False, livePointer = int (length tss) - 1,
       playbackPointer = None, metadata = None, isFinal = False,
       isLivePaused = False, desiredLagMs = DEFAULT_DESIRED_LAG_MS, speedFactor = 1,
       displayIndex = int (length tss) - 1, playQueue = [] \<rparr>"

definition engineOf :: "(int, unit, unit, unit) FrameIndexState \<Rightarrow> (int, unit, unit, unit) Engine" where
  "engineOf s =
     \<lparr> stateRef = s, isMountedRef = True, backfillRunningRef = False,
       backfillStartedRef = False, cancelBackfillRef = False, backfillCursorRef = None,
       schedulerTimerRef = None \<rparr>"

definition scrubbedEngine :: "(int, unit, unit, unit) Engine" where
  "scrubbedEngine = setPlaybackByEpoch 10000 (engineOf (liveStateAt [0, 10000, 20000, 30000]))"

text \<open>
  The session that scrubbed to 10000 and pressed play: the first \<open>resumeLive\<close> clears
  the pause flag, the second one finds it cleared and arms the timer.
\<close>

definition playingEngine :: "(int, unit, unit, unit) Engine" where
  "playingEngine = resumeLive (resumeLive scrubbedEngine)"

definition atLastEngine :: "bool \<Rightarrow> (int, unit, unit, unit) Engine" where
  "atLastEngine final =
     engineOf ((liveStateAt [0, 10000, 20000, 30000])
                 \<lparr> playbackPointer := Some 3, isFinal := final \<rparr>)"

definition backfilledState :: "(int, unit, unit, unit) FrameIndexState" where
  "backfilledState =
     snd (mergeFrames (\<lambda>t. t) isTerminalExample (map frameAt [- 30000, - 20000, - 10000]) [] None
            (liveStateAt [0, 10000, 20000]))"

definition pollAndBackfill ::
  "((int, unit) FrameWindow list \<times> (int, unit) FrameDetails list \<times> unit option) list" where
  "pollAndBackfill =
     [(map frameAt [30000], [], None), (map frameAt [- 10000, - 20000], [], None),
      (map frameAt [40000, 30000], [], None)]"

definition closeFramesEngine :: "(int, unit, unit, unit) Engine" where
  "closeFramesEngine =
     engineOf ((liveStateAt [0, 1000, 2000])\<lparr> playbackPointer := Some 0, displayIndex := 0 \<rparr>)"

definition sessionCommands :: "(int, unit, unit, unit) command list" where
  "sessionCommands =
     [Merge (map frameAt [3000, 9000]) [] None, TimerFires, Merge (map frameAt [- 50000]) [] None,
      TimerFires, GoLive, Merge (map frameAt [100000]) [] None, TimerFires]"

text \<open>
  A synthetic upstream holding a finite history of frames, given by their timestamps:
  the request for the time slice that starts at \<open>targetCursor\<close> answers the frames of
  the history that fall into the slice, one step long, and none when no frame does.
  It never fails.
\<close>

definition sliceUpstream :: "int list \<Rightarrow> (int, unit, unit, unit) upstream" where
  "sliceUpstream history targetCursor attempt =
     Some (map frameAt
             (filter (\<lambda>ts. targetCursor \<le> ts \<and> ts < targetCursor + BACKFILL_STEP_MS) history),
           [], None)"

text \<open>
  The timestamps of the frames number \<open>m\<close> to \<open>N - 1\<close> of a history of \<open>N\<close> frames at a
  fixed spacing, the first at \<open>start\<close>.
\<close>

definition historyTimestamps :: "int \<Rightarrow> int \<Rightarrow> nat \<Rightarrow> nat \<Rightarrow> int list" where
  "historyTimestamps start spacing m N = map (\<lambda>j. start + spacing * int j) [m..<N]"

definition firstFrameEngine :: "(int, unit, unit, unit) Engine" where
  "firstFrameEngine = markHasFirstFrame (engineOf (liveStateAt [0]))"

text \<open>
  What a run of \<open>runBackfill\<close> ends with: the batches it issued, and \<open>hasFirstFrame\<close>
  and the timestamps of the index in the state it leaves.
\<close>

definition backfillOutcome ::
  "(nat \<times> ('t, 'a, 'b, 'm) Engine) option \<Rightarrow> (nat \<times> bool \<times> int list) option" where
  "backfillOutcome run =
     map_option (\<lambda>(n, e). (n, hasFirstFrame (stateRef e), orderedTimestamps (stateRef e))) run"


section \<open>Facts about the containers and the controls\<close>

lemmas example_defs = frameAt_def isTerminalExample_def liveStateAt_def engineOf_def
  scrubbedEngine_def playingEngine_def

lemmas control_defs = setPlaybackByEpoch_def findClosestTimestampIndex_def stopScheduler_def
  resumeLive_def startScheduler_def scheduleNextFrame_def rawDelta_def stepDelay_def
  setFrameState_def nth_opt_def MIN_FRAME_MS_def MAX_FRAME_MS_def goLive_def isLive_def
  showNextFrame_def showNextFrameUpdater_def timerFires_def seeing_def

lemma scrubbedEngine_eq:
  "scrubbedEngine = (engineOf (liveStateAt [0, 10000, 20000, 30000]))
      \<lparr> stateRef := (liveStateAt [0, 10000, 20000, 30000])
           \<lparr> playbackPointer := Some 1, displayIndex := 1, isLivePaused := True \<rparr> \<rparr>"
  by (simp add: example_defs control_defs)

lemma playingEngine_eq:
  "playingEngine = (engineOf (liveStateAt [0, 10000, 20000, 30000]))
      \<lparr> stateRef := (liveStateAt [0, 10000, 20000, 30000])
           \<lparr> playbackPointer := Some 1, displayIndex := 1, isLivePaused := False \<rparr>,
        schedulerTimerRef := Some 4000 \<rparr>"
  by (simp add: example_defs control_defs)

lemma stateRef_scheduleNextFrame: "stateRef (scheduleNextFrame e) = stateRef e"
  by (simp add: scheduleNextFrame_def split: option.splits)

lemma stateRef_startScheduler: "stateRef (startScheduler e) = stateRef e"
  by (simp add: startScheduler_def stateRef_scheduleNextFrame)

lemma stateRef_seeing: "stateRef (seeing seen operation e) = stateRef e"
  by (simp add: seeing_def)

lemma stateRef_stopScheduler: "stateRef (stopScheduler e) = stateRef e"
  by (simp add: stopScheduler_def)

lemma stateRef_setFrameState: "stateRef (setFrameState f e) = f (stateRef e)"
  by (simp add: setFrameState_def)

lemma stateRef_goLive:
  "stateRef (goLive e) =
     (if playbackPointer (stateRef e) = None then stateRef e
      else (stateRef e)\<lparr> playbackPointer := None, displayIndex := livePointer (stateRef e),
                          isLivePaused := False \<rparr>)"
  by (simp add: goLive_def Let_def stateRef_seeing stateRef_setFrameState)

lemma stateRef_showNextFrame:
  "stateRef (showNextFrame e) =
     (if isMountedRef e then showNextFrameUpdater (stateRef e) else stateRef e)"
  by (simp add: showNextFrame_def stateRef_setFrameState)

lemma fold_min_le: "fold min ds (d::int) \<le> d"
proof (induction ds arbitrary: d)
  case Nil then show ?case by simp
next
  case (Cons a ds)
  have "fold min ds (min a d) \<le> min a d" by (rule Cons.IH)
  then show ?case by simp
qed

lemma fold_min_le_all: "x \<in> set ds \<Longrightarrow> fold min ds (d::int) \<le> x"
proof (induction ds arbitrary: d)
  case Nil then show ?case by simp
next
  case (Cons a ds)
  show ?case
  proof (cases "x = a")
    case True
    have "fold min ds (min a d) \<le> min a d" by (rule fold_min_le)
    then show ?thesis using True by simp
  next
    case False
    with Cons.prems have "x \<in> set ds" by simp
    then show ?thesis using Cons.IH by simp
  qed
qed

lemma fold_min_mem: "fold min ds (d::int) \<in> set (d # ds)"
proof (induction ds arbitrary: d)
  case Nil then show ?case by simp
next
  case (Cons a ds)
  have "fold min ds (min a d) \<in> set (min a d # ds)" by (rule Cons.IH)
  moreover have "min a d = a \<or> min a d = d" by (simp add: min_def)
  ultimately show ?case by auto
qed

lemma indexOf_mem:
  "x \<in> set xs \<Longrightarrow> 0 \<le> indexOf xs x \<and> indexOf xs x < int (length xs) \<and> xs ! nat (indexOf xs x) = x"
proof (induction xs)
  case Nil then show ?case by simp
next
  case (Cons y ys)
  show ?case
  proof (cases "y = x")
    case True then show ?thesis by simp
  next
    case False
    with Cons.prems have "x \<in> set ys" by simp
    from Cons.IH [OF this] False show ?thesis
      by (simp add: Let_def nat_add_distrib)
  qed
qed

lemma indexOf_notmem: "x \<notin> set xs \<Longrightarrow> indexOf xs x = - 1"
  by (induction xs) (auto simp: Let_def)

lemma indexOf_ge: "- 1 \<le> indexOf xs x"
  by (induction xs) (auto simp: Let_def)

lemma findClosest_props:
  assumes "tss \<noteq> []"
  shows "0 \<le> findClosestTimestampIndex tss epoch"
    and "findClosestTimestampIndex tss epoch < int (length tss)"
    and "j < length tss \<Longrightarrow>
         \<bar>tss ! nat (findClosestTimestampIndex tss epoch) - epoch\<bar> \<le> \<bar>tss ! j - epoch\<bar>"
proof -
  obtain t rest where tss: "tss = t # rest" using assms by (cases tss) auto
  define dists where "dists = map (\<lambda>ts. \<bar>ts - epoch\<bar>) tss"
  define m where "m = fold min (tl dists) (hd dists)"
  have dists: "dists = \<bar>t - epoch\<bar> # map (\<lambda>ts. \<bar>ts - epoch\<bar>) rest"
    by (simp add: dists_def tss)
  have idx: "findClosestTimestampIndex tss epoch = indexOf dists m"
    by (simp add: findClosestTimestampIndex_def m_def dists tss)
  have mem: "m \<in> set dists"
    using fold_min_mem [of "tl dists" "hd dists"] by (simp add: m_def dists)
  have least: "\<And>x. x \<in> set dists \<Longrightarrow> m \<le> x"
    using fold_min_le [of "tl dists" "hd dists"] fold_min_le_all [of _ "tl dists" "hd dists"]
    by (auto simp: m_def dists)
  have len: "length dists = length tss" by (simp add: dists_def)
  from indexOf_mem [OF mem] have i0: "0 \<le> indexOf dists m"
    and i1: "indexOf dists m < int (length dists)"
    and i2: "dists ! nat (indexOf dists m) = m" by auto
  show "0 \<le> findClosestTimestampIndex tss epoch" using i0 idx by simp
  show "findClosestTimestampIndex tss epoch < int (length tss)" using i1 idx len by simp
  show "\<bar>tss ! nat (findClosestTimestampIndex tss epoch) - epoch\<bar> \<le> \<bar>tss ! j - epoch\<bar>"
    if "j < length tss"
  proof -
    have a: "nat (indexOf dists m) < length tss" using i0 i1 len by simp
    have "dists ! nat (indexOf dists m) = \<bar>tss ! nat (indexOf dists m) - epoch\<bar>"
      using a by (simp add: dists_def)
    moreover have "dists ! j = \<bar>tss ! j - epoch\<bar>" using that by (simp add: dists_def)
    moreover have "dists ! j \<in> set dists" using that len by simp
    ultimately show ?thesis using least i2 idx by metis
  qed
qed


section \<open>Facts about mergeFrames\<close>

subsection \<open>Sets as lists\<close>

lemma set_set_add: "set (set_add x xs) = insert x (set xs)"
  by (auto simp: set_add_def)

lemma distinct_set_add: "distinct xs \<Longrightarrow> distinct (set_add x xs)"
  by (simp add: set_add_def)

lemma set_fold_set_add: "set (fold set_add ys xs) = set ys \<union> set xs"
  by (induction ys arbitrary: xs) (auto simp: set_set_add)

lemma distinct_fold_set_add: "distinct xs \<Longrightarrow> distinct (fold set_add ys xs)"
  by (induction ys arbitrary: xs) (auto simp: distinct_set_add)

lemma fold_set_add_present: "set ys \<subseteq> set xs \<Longrightarrow> fold set_add ys xs = xs"
  by (induction ys) (auto simp: set_add_def)

lemma fold_set_add_append: "distinct ys \<Longrightarrow> set ys \<inter> set xs = {} \<Longrightarrow> fold set_add ys xs = xs @ ys"
  by (induction ys arbitrary: xs) (auto simp: set_add_def)

lemma new_Set_distinct_id: "distinct xs \<Longrightarrow> new_Set xs = xs"
  using fold_set_add_append [of xs "[]"] by (simp add: new_Set_def)

lemma set_new_Set: "set (new_Set xs) = set xs"
  by (simp add: new_Set_def set_fold_set_add)

lemma distinct_new_Set: "distinct (new_Set xs)"
  by (simp add: new_Set_def distinct_fold_set_add)

subsection \<open>The sorted timestamps of a merge\<close>

lemma set_timestampSet:
  "set (timestampSet E prev ws ds) =
     set (orderedTimestamps prev) \<union> (\<lambda>f. E (rfc460Timestamp f)) ` set ws
       \<union> (\<lambda>f. E (rfc460TimestampD f)) ` set ds"
  by (auto simp: timestampSet_def set_fold_set_add set_new_Set)

lemma distinct_timestampSet: "distinct (timestampSet E prev ws ds)"
  by (simp add: timestampSet_def distinct_fold_set_add distinct_new_Set)

lemma set_sortedTimestamps:
  "set (sortedTimestamps E prev ws ds) =
     set (orderedTimestamps prev) \<union> (\<lambda>f. E (rfc460Timestamp f)) ` set ws
       \<union> (\<lambda>f. E (rfc460TimestampD f)) ` set ds"
  by (simp add: sortedTimestamps_def set_timestampSet)

lemma strict_sortedTimestamps:
  "sorted (sortedTimestamps E prev ws ds) \<and> distinct (sortedTimestamps E prev ws ds)"
  by (simp add: sortedTimestamps_def distinct_timestampSet)

lemma sortedTimestamps_nonempty:
  "ws \<noteq> [] \<or> ds \<noteq> [] \<Longrightarrow> sortedTimestamps E prev ws ds \<noteq> []"
proof -
  assume "ws \<noteq> [] \<or> ds \<noteq> []"
  then have "set (sortedTimestamps E prev ws ds) \<noteq> {}"
    by (auto simp: set_sortedTimestamps)
  then show ?thesis by auto
qed

text \<open>The two outcomes of a merge: nothing to do, or the updated state.\<close>

lemma mergeFrames_noop:
  assumes "ws = []" and "ds = []" and "md = None \<or> metadata prev \<noteq> None"
  shows "mergeFrames E T ws ds md prev =
           (\<lparr> changed = False, addedEarlier = False, addedLater = False,
              hasFramesAfter = (orderedTimestamps prev \<noteq> []) \<rparr>, prev)"
  using assms by (auto simp: mergeFrames_def)

lemma mergeFrames_updates:
  assumes "ws \<noteq> [] \<or> ds \<noteq> [] \<or> (md \<noteq> None \<and> metadata prev = None)"
  shows "mergeFrames E T ws ds md prev =
     (\<lparr> changed = True,
        addedEarlier = didAddEarlier (orderedTimestamps prev) (sortedTimestamps E prev ws ds),
        addedLater = didAddLater (orderedTimestamps prev) (sortedTimestamps E prev ws ds),
        hasFramesAfter = (sortedTimestamps E prev ws ds \<noteq> []) \<rparr>,
      prev\<lparr> framesWindow := nextWindow E prev ws,
            framesDetails := nextDetails E prev ds,
            orderedTimestamps := sortedTimestamps E prev ws ds,
            livePointer := newLivePointer (sortedTimestamps E prev ws ds),
            playbackPointer := newPlaybackPointer prev (sortedTimestamps E prev ws ds),
            displayIndex := newDisplayIndex prev (sortedTimestamps E prev ws ds),
            metadata := (if metadata prev = None \<and> md \<noteq> None then md else metadata prev),
            isFinal := ((isFinal prev \<or>
                         list_ex (\<lambda>f. T (gameState f)) (map_values (nextWindow E prev ws)))
                        \<or> list_ex (\<lambda>frame. T (gameState frame)) ws),
            playQueue := newPlayQueue prev (sortedTimestamps E prev ws ds)
                           (newLaterFrames E prev ws ds) \<rparr>)"
  using assms by (auto simp: mergeFrames_def Let_def)

lemma mergeFrames_outcome:
  obtains (noop) "ws = []" "ds = []" "md = None \<or> metadata prev \<noteq> None"
  | (updates) "ws \<noteq> [] \<or> ds \<noteq> [] \<or> (md \<noteq> None \<and> metadata prev = None)"
  by (cases "ws = []"; cases "ds = []"; cases "md = None"; cases "metadata prev = None") auto

text \<open>What a merge leaves in \<open>orderedTimestamps\<close>: the old list, or the sorted set.\<close>

lemma orderedTimestamps_mergeFrames:
  "orderedTimestamps (snd (mergeFrames E T ws ds md prev)) = orderedTimestamps prev
   \<or> orderedTimestamps (snd (mergeFrames E T ws ds md prev)) = sortedTimestamps E prev ws ds"
  by (cases rule: mergeFrames_outcome [of ws ds md prev])
     (simp_all add: mergeFrames_noop mergeFrames_updates)

lemma mergeFrames_keeps_strict:
  assumes "sorted (orderedTimestamps prev) \<and> distinct (orderedTimestamps prev)"
  shows "sorted (orderedTimestamps (snd (mergeFrames E T ws ds md prev)))
         \<and> distinct (orderedTimestamps (snd (mergeFrames E T ws ds md prev)))"
  using orderedTimestamps_mergeFrames [of E T ws ds md prev] assms
        strict_sortedTimestamps [of E prev ws ds]
  by auto

lemma mergeAll_keeps_strict:
  "sorted (orderedTimestamps s) \<and> distinct (orderedTimestamps s) \<Longrightarrow>
   sorted (orderedTimestamps (mergeAll E T ms s)) \<and> distinct (orderedTimestamps (mergeAll E T ms s))"
proof (induction ms arbitrary: s)
  case Nil
  then show ?case by simp
next
  case (Cons m ms)
  obtain ws ds md where m: "m = (ws, ds, md)" by (cases m) auto
  show ?case
    unfolding m mergeAll.simps
    by (rule Cons.IH) (rule mergeFrames_keeps_strict [OF Cons.prems])
qed

subsection \<open>Pointers keep their timestamps\<close>

lemma nth_opt_indexOf: "x \<in> set xs \<Longrightarrow> nth_opt xs (indexOf xs x) = Some x"
  using indexOf_mem [of x xs] by (simp add: nth_opt_def)

lemma indexOf_neq_minus1: "x \<in> set xs \<Longrightarrow> indexOf xs x \<noteq> - 1"
  using indexOf_mem [of x xs] by auto

lemma nth_opt_mem: "nth_opt xs i = Some x \<Longrightarrow> x \<in> set xs"
  by (auto simp: nth_opt_def split: if_splits)

lemma nth_opt_Some_range: "nth_opt xs i = Some x \<Longrightarrow> 0 \<le> i \<and> i < int (length xs)"
  by (auto simp: nth_opt_def split: if_splits)

lemma newDisplayIndex_keeps:
  assumes "displayedTs prev = Some t" and "t \<in> set sortedTs"
  shows "newDisplayIndex prev sortedTs = indexOf sortedTs t"
proof -
  have ne: "sortedTs \<noteq> []" using assms(2) by auto
  have i: "indexOf sortedTs t \<noteq> - 1" "0 \<le> indexOf sortedTs t"
    "indexOf sortedTs t < int (length sortedTs)"
    using indexOf_mem [OF assms(2)] by auto
  have b: "boundedDisplayIndex prev sortedTs = indexOf sortedTs t"
    using assms(1) ne i by (simp add: boundedDisplayIndex_def Let_def)
  have m: "maintainedDisplayIndex prev sortedTs = indexOf sortedTs t"
    using assms(1) i by (simp add: maintainedDisplayIndex_def Let_def b)
  show ?thesis
    using assms(1) i nth_opt_indexOf [OF assms(2)]
    by (simp add: newDisplayIndex_def Let_def m)
qed

lemma displayedTs_mergeFrames:
  assumes "displayedTs prev = Some t"
  shows "displayedTs (snd (mergeFrames E T ws ds md prev)) = Some t"
proof (cases rule: mergeFrames_outcome [of ws ds md prev])
  case noop
  then show ?thesis using assms by (simp add: mergeFrames_noop)
next
  case updates
  let ?srt = "sortedTimestamps E prev ws ds"
  have "t \<in> set (orderedTimestamps prev)"
    using assms by (auto simp: displayedTs_def dest: nth_opt_mem)
  then have mem: "t \<in> set ?srt" by (simp add: set_sortedTimestamps)
  show ?thesis
    by (simp add: mergeFrames_updates [OF updates] displayedTs_def
          newDisplayIndex_keeps [OF assms mem] nth_opt_indexOf [OF mem])
qed

lemma displayIndex_mergeFrames:
  assumes "displayedTs prev = Some t"
      and "ws \<noteq> [] \<or> ds \<noteq> [] \<or> (md \<noteq> None \<and> metadata prev = None)"
  shows "displayIndex (snd (mergeFrames E T ws ds md prev)) =
           indexOf (orderedTimestamps (snd (mergeFrames E T ws ds md prev))) t"
proof -
  let ?srt = "sortedTimestamps E prev ws ds"
  have "t \<in> set (orderedTimestamps prev)"
    using assms by (auto simp: displayedTs_def dest: nth_opt_mem)
  then have mem: "t \<in> set ?srt" by (simp add: set_sortedTimestamps)
  show ?thesis
    by (simp add: mergeFrames_updates [OF assms(2)] newDisplayIndex_keeps [OF assms(1) mem])
qed

lemma selectedTimestamp_mergeFrames:
  assumes "selectedTimestamp prev = Some t"
  shows "selectedTimestamp (snd (mergeFrames E T ws ds md prev)) = Some t"
proof (cases rule: mergeFrames_outcome [of ws ds md prev])
  case noop
  then show ?thesis using assms by (simp add: mergeFrames_noop)
next
  case updates
  let ?srt = "sortedTimestamps E prev ws ds"
  obtain p where p: "playbackPointer prev = Some p" "nth_opt (orderedTimestamps prev) p = Some t"
    using assms by (auto simp: selectedTimestamp_def split: option.splits)
  have "t \<in> set (orderedTimestamps prev)" using p(2) by (rule nth_opt_mem)
  then have mem: "t \<in> set ?srt" by (simp add: set_sortedTimestamps)
  have np: "newPlaybackPointer prev ?srt = Some (indexOf ?srt t)"
    using p indexOf_neq_minus1 [OF mem] by (simp add: newPlaybackPointer_def Let_def)
  show ?thesis
    by (simp add: mergeFrames_updates [OF updates] selectedTimestamp_def np
          nth_opt_indexOf [OF mem])
qed

lemma playbackPointer_mergeFrames_live:
  "playbackPointer prev = None \<Longrightarrow> playbackPointer (snd (mergeFrames E T ws ds md prev)) = None"
  by (cases rule: mergeFrames_outcome [of ws ds md prev])
     (simp_all add: mergeFrames_noop mergeFrames_updates newPlaybackPointer_def)

lemma mergeAll_live_display:
  "playbackPointer s = None \<Longrightarrow> displayedTs s = Some t \<Longrightarrow>
   playbackPointer (mergeAll E T ms s) = None \<and> displayedTs (mergeAll E T ms s) = Some t"
proof (induction ms arbitrary: s)
  case Nil
  then show ?case by simp
next
  case (Cons m ms)
  obtain ws ds md where m: "m = (ws, ds, md)" by (cases m) auto
  show ?case
    unfolding m mergeAll.simps
    by (rule Cons.IH)
       (rule playbackPointer_mergeFrames_live [OF Cons.prems(1)],
        rule displayedTs_mergeFrames [OF Cons.prems(2)])
qed

lemma displayedTs_live_example: "displayedTs (liveStateAt [0, 10000, 20000]) = Some 20000"
  by (simp add: liveStateAt_def displayedTs_def nth_opt_def)

lemma sortedTimestamps_example:
  "sortedTimestamps (\<lambda>t. t) (liveStateAt [0, 10000, 20000])
      [frameAt (- 30000), frameAt (- 20000), frameAt (- 10000)]
      ([] :: (int, unit) FrameDetails list) =
   [- 30000, - 20000, - 10000, 0, 10000, 20000]"
  by (simp add: sortedTimestamps_def timestampSet_def new_Set_def set_add_def liveStateAt_def
        frameAt_def)

lemma backfilledState_index:
  "orderedTimestamps backfilledState = [- 30000, - 20000, - 10000, 0, 10000, 20000]
   \<and> displayIndex backfilledState = 5"
proof -
  have o: "orderedTimestamps backfilledState = [- 30000, - 20000, - 10000, 0, 10000, 20000]"
    by (simp add: backfilledState_def mergeFrames_updates sortedTimestamps_example)
  have "displayIndex backfilledState = indexOf (orderedTimestamps backfilledState) 20000"
    unfolding backfilledState_def
    by (rule displayIndex_mergeFrames [OF displayedTs_live_example]) simp
  then show ?thesis by (simp add: o)
qed

subsection \<open>Speed\<close>

lemma speedFactor_mergeFrames:
  "speedFactor (snd (mergeFrames E T ws ds md prev)) = speedFactor prev"
  by (cases rule: mergeFrames_outcome [of ws ds md prev])
     (simp_all add: mergeFrames_noop mergeFrames_updates)

lemma speedFactor_showNextFrameUpdater:
  "speedFactor (showNextFrameUpdater prev) = speedFactor prev"
  by (simp add: showNextFrameUpdater_def Let_def split: option.splits)

lemma speedFactor_perform:
  "\<not> isSetSpeedFactor c \<Longrightarrow> speedFactor (stateRef (perform E T c e)) = speedFactor (stateRef e)"
proof (cases c)
  case (Merge ws ds md)
  then show ?thesis
    by (simp add: mergeFramesE_def speedFactor_mergeFrames)
next
  case TimerFires
  then show ?thesis
    by (simp add: timerFires_def stateRef_seeing stateRef_showNextFrame
          speedFactor_showNextFrameUpdater)
next
  case StartScheduler
  then show ?thesis by (simp add: stateRef_startScheduler)
next
  case PauseLive
  then show ?thesis by (simp add: pauseLive_def setFrameState_def stopScheduler_def)
next
  case ResumeLive
  then show ?thesis by (simp add: resumeLive_def stateRef_seeing setFrameState_def)
next
  case GoLive
  then show ?thesis by (simp add: stateRef_goLive)
next
  case (ScrubTo epoch)
  then show ?thesis by (simp add: setPlaybackByEpoch_def Let_def stopScheduler_def)
next
  case (SetDesiredLagMs ms)
  then show ?thesis by (simp add: setDesiredLagMs_def setFrameState_def)
next
  case (SetSpeedFactor f)
  assume "\<not> isSetSpeedFactor c"
  with SetSpeedFactor show ?thesis by simp
next
  case MarkHasFirstFrame
  then show ?thesis by (simp add: markHasFirstFrame_def setFrameState_def)
qed

lemma speedFactor_performAll:
  "list_all (\<lambda>c. \<not> isSetSpeedFactor c) cs \<Longrightarrow>
   speedFactor (stateRef (performAll E T cs e)) = speedFactor (stateRef e)"
  unfolding performAll_def
  by (induction cs arbitrary: e) (simp_all add: speedFactor_perform)

lemma rawDelta_speedFactor: "rawDelta (s\<lparr> speedFactor := x \<rparr>) = rawDelta s"
  by (simp add: rawDelta_def Let_def cong: option.case_cong prod.case_cong if_cong)

lemma timer_scheduleNextFrame:
  "isMountedRef e \<Longrightarrow> rawDelta (stateRef e) = Some delta \<Longrightarrow>
   schedulerTimerRef (scheduleNextFrame (setSpeedFactor f e)) =
     Some (stepDelay delta (max 0.5 (min 10 f)))"
  by (simp add: scheduleNextFrame_def setSpeedFactor_def setFrameState_def rawDelta_speedFactor
        MAX_SPEED_FACTOR_def)


subsection \<open>Repeating a series of Map.set calls\<close>

lemma update_commute_present:
  "k \<noteq> k' \<Longrightarrow> k \<in> fst ` set al \<Longrightarrow>
   AList.update k' v' (AList.update k v al) = AList.update k v (AList.update k' v' al)"
  by (induction al) auto

lemma keys_fold_update:
  "fst ` set (fold (\<lambda>f m. AList.update (key f) f m) fs al) = fst ` set al \<union> key ` set fs"
  by (induction fs arbitrary: al) (auto simp: dom_update)

lemma map_of_fold_update_other:
  "k \<notin> key ` set fs \<Longrightarrow>
   map_of (fold (\<lambda>f m. AList.update (key f) f m) fs al) k = map_of al k"
  by (induction fs arbitrary: al) (auto simp: update_conv')

lemma fold_update_overridden:
  "k \<in> key ` set fs \<Longrightarrow> k \<in> fst ` set al \<Longrightarrow>
   fold (\<lambda>f m. AList.update (key f) f m) fs (AList.update k v al) =
   fold (\<lambda>f m. AList.update (key f) f m) fs al"
proof (induction fs arbitrary: al)
  case Nil
  then show ?case by simp
next
  case (Cons g gs)
  show ?case
  proof (cases "key g = k")
    case True
    then show ?thesis by simp
  next
    case False
    with Cons.prems(1) have in_gs: "k \<in> key ` set gs" by auto
    have pres: "k \<in> fst ` set (AList.update (key g) g al)"
      using Cons.prems(2) by (simp add: dom_update)
    have "AList.update (key g) g (AList.update k v al) =
          AList.update k v (AList.update (key g) g al)"
      using False Cons.prems(2) by (simp add: update_commute_present)
    then show ?thesis using Cons.IH [OF in_gs pres] by simp
  qed
qed

lemma fold_update_twice_aux:
  "fold (\<lambda>f m. AList.update (key f) f m) fs
     (fold (\<lambda>f m. AList.update (key f) f m) (pre @ fs) al) =
   fold (\<lambda>f m. AList.update (key f) f m) (pre @ fs) al"
proof (induction fs arbitrary: pre)
  case Nil
  then show ?case by simp
next
  case (Cons f fs)
  let ?U = "\<lambda>xs m. fold (\<lambda>f m. AList.update (key f) f m) xs m"
  let ?M = "?U (pre @ f # fs) al"
  have M: "?M = ?U ((pre @ [f]) @ fs) al" by simp
  have IH: "?U fs ?M = ?M" unfolding M by (rule Cons.IH)
  have present: "key f \<in> fst ` set ?M" by (simp add: keys_fold_update dom_update)
  show ?case
  proof (cases "key f \<in> key ` set fs")
    case True
    have "?U (f # fs) ?M = ?U fs (AList.update (key f) f ?M)" by simp
    also have "\<dots> = ?U fs ?M" by (rule fold_update_overridden [OF True present])
    finally show ?thesis using IH by simp
  next
    case False
    have "?M = ?U fs (?U (pre @ [f]) al)" by simp
    then have "map_of ?M (key f) = map_of (?U (pre @ [f]) al) (key f)"
      using map_of_fold_update_other [OF False, of "?U (pre @ [f]) al"] by simp
    also have "\<dots> = Some f" by (simp add: update_conv')
    finally have "AList.update (key f) f ?M = ?M" by (rule update_triv)
    then have "?U (f # fs) ?M = ?U fs ?M" by simp
    then show ?thesis using IH by simp
  qed
qed

lemma fold_update_twice:
  "fold (\<lambda>f m. AList.update (key f) f m) fs (fold (\<lambda>f m. AList.update (key f) f m) fs al) =
   fold (\<lambda>f m. AList.update (key f) f m) fs al"
  using fold_update_twice_aux [of key fs "[]" al] by simp

lemma map_has_iff: "map_has m k \<longleftrightarrow> k \<in> fst ` set m"
  by (simp add: map_has_def map_of_eq_None_iff)

subsection \<open>Merging the same frames again\<close>

lemma nextWindow_again:
  "framesWindow s1 = nextWindow E s ws \<Longrightarrow> nextWindow E s1 ws = framesWindow s1"
  by (simp add: nextWindow_def fold_update_twice)

lemma nextDetails_again:
  "framesDetails s1 = nextDetails E s ds \<Longrightarrow> nextDetails E s1 ds = framesDetails s1"
  by (simp add: nextDetails_def fold_update_twice)

lemma sortedTimestamps_again:
  assumes "orderedTimestamps s1 = sortedTimestamps E s ws ds"
  shows "sortedTimestamps E s1 ws ds = orderedTimestamps s1"
proof -
  let ?X = "orderedTimestamps s1"
  let ?epochs = "map (\<lambda>frame. E (rfc460Timestamp frame)) ws @
                 map (\<lambda>frame. E (rfc460TimestampD frame)) ds"
  have sd: "sorted ?X" "distinct ?X" using strict_sortedTimestamps [of E s ws ds] assms by auto
  have sub: "set ?epochs \<subseteq> set ?X"
    unfolding assms by (auto simp: set_sortedTimestamps)
  have "timestampSet E s1 ws ds = fold set_add ?epochs ?X"
    by (simp add: timestampSet_def new_Set_distinct_id [OF sd(2)])
  also have "\<dots> = ?X" by (rule fold_set_add_present [OF sub])
  finally show ?thesis by (simp add: sortedTimestamps_def sorted_sort_id [OF sd(1)])
qed

lemma newLaterFrames_again:
  assumes "framesWindow s1 = nextWindow E s ws" and "framesDetails s1 = nextDetails E s ds"
  shows "newLaterFrames E s1 ws ds = []"
proof -
  have w: "\<And>f. f \<in> set ws \<Longrightarrow> map_has (framesWindow s1) (E (rfc460Timestamp f))"
    by (simp add: map_has_iff assms(1) nextWindow_def keys_fold_update)
  have d: "\<And>f. f \<in> set ds \<Longrightarrow> map_has (framesDetails s1) (E (rfc460TimestampD f))"
    by (simp add: map_has_iff assms(2) nextDetails_def keys_fold_update)
  have "filter (isNewLater s1) (map (\<lambda>frame. E (rfc460Timestamp frame)) ws) = []"
    using w by (auto simp: filter_empty_conv isNewLater_def)
  moreover have "filter (isNewLater s1) (map (\<lambda>frame. E (rfc460TimestampD frame)) ds) = []"
    using d by (auto simp: filter_empty_conv isNewLater_def)
  ultimately show ?thesis by (simp add: newLaterFrames_def)
qed

lemma didAddEarlier_same: "\<not> didAddEarlier X X"
  by (cases X) (simp_all add: didAddEarlier_def first_opt_def)

lemma didAddLater_same: "\<not> didAddLater X X"
  by (simp add: didAddLater_def last_opt_def)

lemma newPlayQueue_again: "newPlayQueue s1 (orderedTimestamps s1) [] = playQueue s1"
  by (simp add: newPlayQueue_def didAddEarlier_same extendedPlayQueue_def)

lemma indexOf_range: "indexOf xs x \<noteq> - 1 \<Longrightarrow> 0 \<le> indexOf xs x \<and> indexOf xs x < int (length xs)"
  using indexOf_mem [of x xs] indexOf_notmem [of x xs] by blast

lemma indexOf_nth_distinct:
  "distinct xs \<Longrightarrow> i < length xs \<Longrightarrow> indexOf xs (xs ! i) = int i"
proof (induction xs arbitrary: i)
  case Nil
  then show ?case by simp
next
  case (Cons y ys)
  show ?case
  proof (cases i)
    case 0
    then show ?thesis by simp
  next
    case (Suc j)
    with Cons.prems have j: "j < length ys" and d: "distinct ys" and ne: "y \<noteq> ys ! j"
      by auto
    from Cons.IH [OF d j] ne Suc show ?thesis by (simp add: Let_def)
  qed
qed

lemma newPlaybackPointer_again:
  assumes "playbackPointer s1 = newPlaybackPointer s X" and "orderedTimestamps s1 = X"
  shows "newPlaybackPointer s1 X = playbackPointer s1"
proof (cases "playbackPointer s1")
  case None
  then show ?thesis by (simp add: newPlaybackPointer_def)
next
  case (Some i)
  then have "newPlaybackPointer s X = Some i" using assms(1) by simp
  then obtain ts where ts: "indexOf X ts = i" "i \<noteq> - 1"
    by (auto simp: newPlaybackPointer_def Let_def split: option.splits if_splits)
  then have mem: "ts \<in> set X" using indexOf_notmem [of ts X] by auto
  have "nth_opt X i = Some ts" using nth_opt_indexOf [OF mem] ts by simp
  then show ?thesis using Some ts assms(2) by (simp add: newPlaybackPointer_def Let_def)
qed

lemma indexOf_neg_iff: "indexOf xs x < 0 \<longleftrightarrow> indexOf xs x = - 1"
  using indexOf_range [of xs x] by (cases "indexOf xs x = - 1") auto

lemma indexOf_lt_length: "indexOf xs x < int (length xs)"
  using indexOf_range [of xs x] by (cases "indexOf xs x = - 1") auto

lemma boundedDisplayIndex_bounds:
  assumes "X \<noteq> []"
  shows "boundedDisplayIndex s X < int (length X)
         \<and> (boundedDisplayIndex s X < 0 \<longrightarrow> newPlaybackPointer s X \<noteq> None)"
  using assms
  by (auto simp: boundedDisplayIndex_def Let_def newLivePointer_def indexOf_neg_iff
        indexOf_lt_length split: option.splits)

lemma maintainedDisplayIndex_bounds:
  assumes "X \<noteq> []"
  shows "maintainedDisplayIndex s X < int (length X)
         \<and> (maintainedDisplayIndex s X < 0 \<longrightarrow> newPlaybackPointer s X \<noteq> None)"
  using boundedDisplayIndex_bounds [OF assms, of s]
  by (auto simp: maintainedDisplayIndex_def Let_def indexOf_neg_iff indexOf_lt_length
        split: option.splits)

lemma newDisplayIndex_bounds:
  assumes "X \<noteq> []"
  shows "newDisplayIndex s X < int (length X)
         \<and> (newDisplayIndex s X < 0 \<longrightarrow> newPlaybackPointer s X \<noteq> None)"
  using maintainedDisplayIndex_bounds [OF assms, of s]
  by (auto simp: newDisplayIndex_def Let_def indexOf_neg_iff indexOf_lt_length
        split: option.splits)

lemma newDisplayIndex_again:
  assumes "orderedTimestamps s1 = X" and "X \<noteq> []" and "distinct X"
      and "playbackPointer s1 = newPlaybackPointer s X"
      and "displayIndex s1 = newDisplayIndex s X"
  shows "newDisplayIndex s1 X = displayIndex s1"
proof (cases "0 \<le> displayIndex s1")
  case True
  let ?d = "displayIndex s1"
  have lt: "?d < int (length X)" using newDisplayIndex_bounds [OF assms(2), of s] assms(5) by simp
  then have n: "nat ?d < length X" using True by simp
  have disp: "displayedTs s1 = Some (X ! nat ?d)"
    using True lt by (simp add: displayedTs_def nth_opt_def assms(1))
  have mem: "X ! nat ?d \<in> set X" using n by simp
  have "newDisplayIndex s1 X = indexOf X (X ! nat ?d)"
    by (rule newDisplayIndex_keeps [OF disp mem])
  also have "\<dots> = ?d" using indexOf_nth_distinct [OF assms(3) n] True by simp
  finally show ?thesis .
next
  case False
  then have neg: "displayIndex s1 < 0" by simp
  then have pp: "playbackPointer s1 \<noteq> None"
    using newDisplayIndex_bounds [OF assms(2), of s] assms(4,5) by simp
  have npp: "newPlaybackPointer s1 X \<noteq> None"
    using pp newPlaybackPointer_again [OF assms(4) assms(1)] by simp
  have disp: "displayedTs s1 = None" using neg by (simp add: displayedTs_def nth_opt_def)
  have b: "boundedDisplayIndex s1 X = displayIndex s1"
    using assms(2) neg npp disp by (simp add: boundedDisplayIndex_def Let_def)
  have m: "maintainedDisplayIndex s1 X = displayIndex s1"
    using pp by (auto simp: maintainedDisplayIndex_def Let_def b)
  show ?thesis using pp by (auto simp: newDisplayIndex_def Let_def m)
qed


section \<open>Facts about the backfill loop\<close>

declare fetchWithRetry.simps [simp del]

subsection \<open>What the scheduler and the bookkeeping leave alone\<close>

lemma scheduleNextFrame_timer_only:
  "\<exists>timer. scheduleNextFrame e = e\<lparr> schedulerTimerRef := timer \<rparr>"
proof (cases "isMountedRef e")
  case False
  then have "scheduleNextFrame e = e\<lparr> schedulerTimerRef := schedulerTimerRef e \<rparr>"
    by (simp add: scheduleNextFrame_def)
  then show ?thesis ..
next
  case True
  then show ?thesis
    by (cases "rawDelta (stateRef e)") (auto simp: scheduleNextFrame_def)
qed

lemma ensureScheduler_timer_only:
  "\<exists>timer. ensureScheduler e = e\<lparr> schedulerTimerRef := timer \<rparr>"
proof (cases "ensureScheduler e = e")
  case True
  then have "ensureScheduler e = e\<lparr> schedulerTimerRef := schedulerTimerRef e \<rparr>" by simp
  then show ?thesis ..
next
  case False
  then have "ensureScheduler e = scheduleNextFrame e"
    by (auto simp: ensureScheduler_def startScheduler_def split: if_splits)
  then show ?thesis using scheduleNextFrame_timer_only [of e] by simp
qed

lemma mergeFramesE_eq:
  "mergeFramesE E T ws ds md e =
     (\<lparr> changed = False, addedEarlier = False, addedLater = False,
        hasFramesAfter = (orderedTimestamps (stateRef e) \<noteq> []) \<rparr>,
      e\<lparr> stateRef := snd (mergeFrames E T ws ds md (stateRef e)) \<rparr>)"
  by (simp add: mergeFramesE_def)

lemma hasFirstFrame_mergeFrames:
  "hasFirstFrame (snd (mergeFrames E T ws ds md prev)) = hasFirstFrame prev"
  by (cases rule: mergeFrames_outcome [of ws ds md prev])
     (simp_all add: mergeFrames_noop mergeFrames_updates)

lemma markHasFirstFrame_fields:
  "hasFirstFrame (stateRef (markHasFirstFrame e))
   \<and> orderedTimestamps (stateRef (markHasFirstFrame e)) = orderedTimestamps (stateRef e)"
  by (simp add: markHasFirstFrame_def setFrameState_def)

declare backfillLoop.simps [simp del]

subsection \<open>An empty batch\<close>

lemma processResult_noFrames:
  "yieldsNoFrames result \<Longrightarrow> processResult E T result acc = acc"
  by (auto simp: yieldsNoFrames_def processResult_def split: option.splits prod.splits)

lemma fold_processResult_noFrames:
  "list_all yieldsNoFrames results \<Longrightarrow> fold (processResult E T) results acc = acc"
  by (induction results arbitrary: acc) (simp_all add: processResult_noFrames)

lemma backfillIteration_empty_batch:
  assumes "backfillCursor e = Some cur"
      and "list_all (\<lambda>targetCursor. yieldsNoFrames (fetchWithRetry upstream targetCursor 0))
             (targetTimestamps cur)"
  shows "backfillIteration E T upstream e =
           (False, markHasFirstFrame (e\<lparr> backfillCursorRef := Some cur \<rparr>))"
proof -
  have "list_all yieldsNoFrames
          (map (\<lambda>targetCursor. fetchWithRetry upstream targetCursor 0) (targetTimestamps cur))"
    using assms(2) by (simp add: list_all_iff)
  then have "processResults E T
          (map (\<lambda>targetCursor. fetchWithRetry upstream targetCursor 0) (targetTimestamps cur))
          (e\<lparr> backfillCursorRef := Some cur \<rparr>) =
        (e\<lparr> backfillCursorRef := Some cur \<rparr>,
         \<lparr> anyProgress = False, sawFrames = False, earliestFetchedTimestamp = None \<rparr>)"
    unfolding processResults_def by (rule fold_processResult_noFrames)
  then show ?thesis by (simp add: backfillIteration_def assms(1) Let_def)
qed

lemma backfillLoop_after_first_frame:
  "hasFirstFrame (stateRef e) \<Longrightarrow> backfillLoop E T upstream fuel e = Some (0, stateRef e, e)"
  by (subst backfillLoop.simps) simp

lemma hasFirstFrame_showNextFrameUpdater:
  "hasFirstFrame (showNextFrameUpdater prev) = hasFirstFrame prev"
  by (simp add: showNextFrameUpdater_def Let_def split: option.splits)

lemma hasFirstFrame_perform:
  "hasFirstFrame (stateRef e) \<Longrightarrow> hasFirstFrame (stateRef (perform E T c e))"
proof (cases c)
  case (Merge ws ds md)
  assume "hasFirstFrame (stateRef e)"
  then show ?thesis using Merge by (simp add: mergeFramesE_eq hasFirstFrame_mergeFrames)
next
  case TimerFires
  assume "hasFirstFrame (stateRef e)"
  then show ?thesis using TimerFires
    by (simp add: timerFires_def stateRef_seeing stateRef_showNextFrame
          hasFirstFrame_showNextFrameUpdater)
next
  case StartScheduler
  assume "hasFirstFrame (stateRef e)"
  then show ?thesis using StartScheduler by (simp add: stateRef_startScheduler)
next
  case PauseLive
  assume "hasFirstFrame (stateRef e)"
  then show ?thesis using PauseLive by (simp add: pauseLive_def setFrameState_def stopScheduler_def)
next
  case ResumeLive
  assume "hasFirstFrame (stateRef e)"
  then show ?thesis using ResumeLive
    by (simp add: resumeLive_def stateRef_seeing setFrameState_def)
next
  case GoLive
  assume "hasFirstFrame (stateRef e)"
  then show ?thesis using GoLive by (simp add: stateRef_goLive)
next
  case (ScrubTo epoch)
  assume "hasFirstFrame (stateRef e)"
  then show ?thesis using ScrubTo by (simp add: setPlaybackByEpoch_def Let_def stopScheduler_def)
next
  case (SetDesiredLagMs ms)
  assume "hasFirstFrame (stateRef e)"
  then show ?thesis using SetDesiredLagMs by (simp add: setDesiredLagMs_def setFrameState_def)
next
  case (SetSpeedFactor f)
  assume "hasFirstFrame (stateRef e)"
  then show ?thesis using SetSpeedFactor by (simp add: setSpeedFactor_def setFrameState_def)
next
  case MarkHasFirstFrame
  assume "hasFirstFrame (stateRef e)"
  then show ?thesis using MarkHasFirstFrame by (simp add: markHasFirstFrame_def setFrameState_def)
qed

lemma hasFirstFrame_performAll:
  "hasFirstFrame (stateRef e) \<Longrightarrow> hasFirstFrame (stateRef (performAll E T cs e))"
  unfolding performAll_def
  by (induction cs arbitrary: e) (simp_all add: hasFirstFrame_perform)


subsection \<open>A history served slice by slice\<close>

lemma fetch_slice:
  "fetchWithRetry (sliceUpstream hist) c 0 =
     Some ((map frameAt (filter (\<lambda>ts. c \<le> ts \<and> ts < c + 10000) hist), [], None), c)"
  by (subst fetchWithRetry.simps)
     (simp add: sliceUpstream_def maxRetries_def BACKFILL_STEP_MS_def)

lemma seeing_ensureScheduler_timer_only:
  "\<exists>timer. seeing seen ensureScheduler e = e\<lparr> schedulerTimerRef := timer \<rparr>"
proof -
  obtain timer where
    "ensureScheduler (e\<lparr> stateRef := seen \<rparr>) = (e\<lparr> stateRef := seen \<rparr>)\<lparr> schedulerTimerRef := timer \<rparr>"
    using ensureScheduler_timer_only [of "e\<lparr> stateRef := seen \<rparr>"] by blast
  then have "seeing seen ensureScheduler e = e\<lparr> schedulerTimerRef := timer \<rparr>"
    by (simp add: seeing_def)
  then show ?thesis ..
qed

lemma orderedTimestamps_merge_slice:
  assumes "F \<noteq> []"
  shows "set (orderedTimestamps (snd (mergeFrames (\<lambda>t. t) T (map frameAt F) [] None prev))) =
           set F \<union> set (orderedTimestamps prev)
   \<and> sorted (orderedTimestamps (snd (mergeFrames (\<lambda>t. t) T (map frameAt F) [] None prev)))
   \<and> distinct (orderedTimestamps (snd (mergeFrames (\<lambda>t. t) T (map frameAt F) [] None prev)))"
proof -
  have img: "(\<lambda>f. rfc460Timestamp f) ` frameAt ` set F = set F"
    by (auto simp: frameAt_def image_iff)
  show ?thesis
    using assms strict_sortedTimestamps [of "\<lambda>t. t" prev "map frameAt F" "[]"] img
    by (auto simp: mergeFrames_updates set_sortedTimestamps)
qed

text \<open>The least of the target cursors that brought frames, as the pass computes it.\<close>

lemma earliest_step:
  assumes "r = None \<or> (\<exists>y. r = Some y \<and> y \<in> S \<and> (\<forall>z \<in> S. y \<le> z))"
      and "r = None \<longleftrightarrow> S = {}"
  shows "\<exists>y. (case r of None \<Rightarrow> Some c | Some x \<Rightarrow> if c < x then Some c else Some x) = Some y
              \<and> y \<in> insert c S \<and> (\<forall>z \<in> insert c S. y \<le> (z::int))"
  using assms by (cases r) (auto split: if_splits)

lemma fold_processResult_slice:
  assumes "fold (processResult (\<lambda>t. t) T)
             (map (\<lambda>c. fetchWithRetry (sliceUpstream hist) c 0) cs) (e, pr) = (e', pr')"
      and "sorted (orderedTimestamps (stateRef e)) \<and> distinct (orderedTimestamps (stateRef e))"
      and "earliestFetchedTimestamp pr = None \<or>
           (\<exists>y. earliestFetchedTimestamp pr = Some y \<and> y \<in> S0 \<and> (\<forall>z \<in> S0. y \<le> z))"
      and "earliestFetchedTimestamp pr = None \<longleftrightarrow> S0 = {}"
  shows "set (orderedTimestamps (stateRef e')) =
           set (orderedTimestamps (stateRef e))
           \<union> {ts \<in> set hist. \<exists>c \<in> set cs. c \<le> ts \<and> ts < c + 10000}
         \<and> sorted (orderedTimestamps (stateRef e')) \<and> distinct (orderedTimestamps (stateRef e'))
         \<and> anyProgress pr' = anyProgress pr
         \<and> sawFrames pr' =
             (sawFrames pr \<or> (\<exists>c \<in> set cs. \<exists>ts \<in> set hist. c \<le> ts \<and> ts < c + 10000))
         \<and> (earliestFetchedTimestamp pr' = None \<longleftrightarrow>
              S0 \<union> {c \<in> set cs. \<exists>ts \<in> set hist. c \<le> ts \<and> ts < c + 10000} = {})
         \<and> (\<forall>y. earliestFetchedTimestamp pr' = Some y \<longrightarrow>
              y \<in> S0 \<union> {c \<in> set cs. \<exists>ts \<in> set hist. c \<le> ts \<and> ts < c + 10000}
              \<and> (\<forall>z \<in> S0 \<union> {c \<in> set cs. \<exists>ts \<in> set hist. c \<le> ts \<and> ts < c + 10000}. y \<le> z))
         \<and> hasFirstFrame (stateRef e') = hasFirstFrame (stateRef e)
         \<and> isMountedRef e' = isMountedRef e
         \<and> cancelBackfillRef e' = cancelBackfillRef e
         \<and> backfillCursorRef e' = backfillCursorRef e"
  using assms
proof (induction cs arbitrary: e pr S0)
  case Nil
  then show ?case by auto
next
  case (Cons c cs)
  define F where "F = filter (\<lambda>ts. c \<le> ts \<and> ts < c + 10000) hist"
  have Fset: "set F = {ts \<in> set hist. c \<le> ts \<and> ts < c + 10000}" by (auto simp: F_def)
  show ?case
  proof (cases "F = []")
    case True
    have "processResult (\<lambda>t. t) T (fetchWithRetry (sliceUpstream hist) c 0) (e, pr) = (e, pr)"
      using True by (simp add: processResult_def fetch_slice F_def)
    then have step: "fold (processResult (\<lambda>t. t) T)
             (map (\<lambda>c. fetchWithRetry (sliceUpstream hist) c 0) cs) (e, pr) = (e', pr')"
      using Cons.prems(1) by simp
    have none: "\<not> (\<exists>ts \<in> set hist. c \<le> ts \<and> ts < c + 10000)"
      using True Fset by auto
    have s1: "{ts \<in> set hist. \<exists>c' \<in> set (c # cs). c' \<le> ts \<and> ts < c' + 10000} =
              {ts \<in> set hist. \<exists>c' \<in> set cs. c' \<le> ts \<and> ts < c' + 10000}"
      using none by auto
    have s2: "{c' \<in> set (c # cs). \<exists>ts \<in> set hist. c' \<le> ts \<and> ts < c' + 10000} =
              {c' \<in> set cs. \<exists>ts \<in> set hist. c' \<le> ts \<and> ts < c' + 10000}"
      using none by auto
    have s3: "(\<exists>c' \<in> set (c # cs). \<exists>ts \<in> set hist. c' \<le> ts \<and> ts < c' + 10000) =
              (\<exists>c' \<in> set cs. \<exists>ts \<in> set hist. c' \<le> ts \<and> ts < c' + 10000)"
      using none by auto
    show ?thesis
      unfolding s1 s2 s3 by (rule Cons.IH [OF step Cons.prems(2-4)])
  next
    case False
    define e1 where
      "e1 = e\<lparr> stateRef := snd (mergeFrames (\<lambda>t. t) T (map frameAt F) [] None (stateRef e)) \<rparr>"
    define pr1 where
      "pr1 = \<lparr> anyProgress = anyProgress pr, sawFrames = True,
           earliestFetchedTimestamp =
             (case earliestFetchedTimestamp pr of
                None \<Rightarrow> Some c
              | Some earliest \<Rightarrow> (if c < earliest then Some c else Some earliest)) \<rparr>"
    have "processResult (\<lambda>t. t) T (fetchWithRetry (sliceUpstream hist) c 0) (e, pr) = (e1, pr1)"
      using False
      by (simp add: processResult_def fetch_slice F_def [symmetric] mergeFramesE_eq e1_def pr1_def)
    then have step: "fold (processResult (\<lambda>t. t) T)
             (map (\<lambda>c. fetchWithRetry (sliceUpstream hist) c 0) cs) (e1, pr1) = (e', pr')"
      using Cons.prems(1) by simp
    have o1: "set (orderedTimestamps (stateRef e1)) = set F \<union> set (orderedTimestamps (stateRef e))"
      and st1: "sorted (orderedTimestamps (stateRef e1)) \<and> distinct (orderedTimestamps (stateRef e1))"
      using orderedTimestamps_merge_slice [OF False, of T "stateRef e"] by (simp_all add: e1_def)
    have h1: "hasFirstFrame (stateRef e1) = hasFirstFrame (stateRef e)"
      by (simp add: e1_def hasFirstFrame_mergeFrames)
    have r1: "isMountedRef e1 = isMountedRef e" "cancelBackfillRef e1 = cancelBackfillRef e"
      "backfillCursorRef e1 = backfillCursorRef e"
      by (simp_all add: e1_def)
    have p1: "anyProgress pr1 = anyProgress pr" "sawFrames pr1" by (simp_all add: pr1_def)
    obtain y where y: "earliestFetchedTimestamp pr1 = Some y" "y \<in> insert c S0"
      "\<forall>z \<in> insert c S0. y \<le> z"
      using earliest_step [OF Cons.prems(3,4), of c] by (auto simp: pr1_def)
    have e3: "earliestFetchedTimestamp pr1 = None \<or>
           (\<exists>y. earliestFetchedTimestamp pr1 = Some y \<and> y \<in> insert c S0
                \<and> (\<forall>z \<in> insert c S0. y \<le> z))"
      using y by blast
    have e4: "earliestFetchedTimestamp pr1 = None \<longleftrightarrow> insert c S0 = {}" using y by simp
    have hit: "\<exists>ts \<in> set hist. c \<le> ts \<and> ts < c + 10000"
      using False Fset by (cases F) auto
    have s1: "set (orderedTimestamps (stateRef e1))
                \<union> {ts \<in> set hist. \<exists>c' \<in> set cs. c' \<le> ts \<and> ts < c' + 10000} =
              set (orderedTimestamps (stateRef e))
                \<union> {ts \<in> set hist. \<exists>c' \<in> set (c # cs). c' \<le> ts \<and> ts < c' + 10000}"
      unfolding o1 Fset by auto
    have s2: "insert c S0 \<union> {c' \<in> set cs. \<exists>ts \<in> set hist. c' \<le> ts \<and> ts < c' + 10000} =
              S0 \<union> {c' \<in> set (c # cs). \<exists>ts \<in> set hist. c' \<le> ts \<and> ts < c' + 10000}"
      using hit by auto
    have s3: "(\<exists>c' \<in> set (c # cs). \<exists>ts \<in> set hist. c' \<le> ts \<and> ts < c' + 10000)"
      using hit by auto
    from Cons.IH [OF step st1 e3 e4]
    show ?thesis
      unfolding s1 s2 h1 r1 p1 using s3 p1(2) by simp
  qed
qed


subsection \<open>One frame per slice\<close>

lemma round_le: "roundToPrevious10s t \<le> t" and round_gt: "t < roundToPrevious10s t + 10000"
  by (simp_all add: roundToPrevious10s_def)

lemma round_shift: "roundToPrevious10s (t + 10000 * k) = roundToPrevious10s t + 10000 * k"
  by (simp add: roundToPrevious10s_def)

lemma historyTimestamps_strict:
  "0 < spacing \<Longrightarrow>
   sorted (historyTimestamps start spacing m N) \<and> distinct (historyTimestamps start spacing m N)"
proof -
  assume "0 < spacing"
  then have "sorted_wrt (<) (historyTimestamps start spacing m N)"
    unfolding historyTimestamps_def sorted_wrt_map
    by (intro sorted_wrt_mono_rel [OF _ sorted_wrt_upt [of m N]]) simp
  then show ?thesis by (simp add: strict_sorted_iff)
qed

lemma set_historyTimestamps:
  "set (historyTimestamps start spacing m N) = (\<lambda>j. start + spacing * int j) ` {m..<N}"
  by (simp add: historyTimestamps_def)

lemma first_opt_historyTimestamps:
  "m < N \<Longrightarrow> first_opt (historyTimestamps start spacing m N) = Some (start + spacing * int m)"
  by (simp add: first_opt_def historyTimestamps_def upt_conv_Cons)

lemma slice_holds_one:
  assumes "base \<le> start" and "start < base + 10000"
  shows "(base + 10000 * int m - 10000 - 10000 * int i \<le> start + 10000 * int j
          \<and> start + 10000 * int j < base + 10000 * int m - 10000 - 10000 * int i + 10000)
         \<longleftrightarrow> j + 1 + i = m"
  using assms by auto

lemma slices_of_batch:
  assumes "base \<le> start" and "start < base + 10000" and "m < N"
  shows "{ts \<in> set (historyTimestamps start 10000 0 N).
            \<exists>c \<in> set (targetTimestamps (base + 10000 * int m - 10000)). c \<le> ts \<and> ts < c + 10000} =
           (\<lambda>j. start + 10000 * int j) ` {m - 10..<m}" (is "?A = ?A'")
    and "{c \<in> set (targetTimestamps (base + 10000 * int m - 10000)).
            \<exists>ts \<in> set (historyTimestamps start 10000 0 N). c \<le> ts \<and> ts < c + 10000} =
           (\<lambda>j. base + 10000 * int j) ` {m - 10..<m}" (is "?B = ?B'")
proof -
  have tg: "set (targetTimestamps (base + 10000 * int m - 10000)) =
              (\<lambda>i. base + 10000 * int m - 10000 - 10000 * int i) ` {0..<10}"
    by (simp add: targetTimestamps_def BACKFILL_STEP_MS_def BACKFILL_CONCURRENCY_def)
  note one = slice_holds_one [OF assms(1,2)]
  show "?A = ?A'"
  proof (intro set_eqI iffI)
    fix ts assume "ts \<in> ?A"
    then obtain j i where j: "j < N" "ts = start + 10000 * int j" and i: "i < 10"
      and "base + 10000 * int m - 10000 - 10000 * int i \<le> ts
           \<and> ts < base + 10000 * int m - 10000 - 10000 * int i + 10000"
      unfolding tg set_historyTimestamps by auto
    then have "j + 1 + i = m" using one [of m i j] by simp
    then have "j \<in> {m - 10..<m}" using i by auto
    then show "ts \<in> ?A'" using j(2) by blast
  next
    fix ts assume "ts \<in> ?A'"
    then obtain j where j: "m - 10 \<le> j" "j < m" "ts = start + 10000 * int j" by auto
    define i where "i = m - 1 - j"
    have i: "i < 10" "j + 1 + i = m" using j(1,2) by (auto simp: i_def)
    have "base + 10000 * int m - 10000 - 10000 * int i \<le> ts
           \<and> ts < base + 10000 * int m - 10000 - 10000 * int i + 10000"
      using one [of m i j] i(2) j(3) by simp
    moreover have "ts \<in> set (historyTimestamps start 10000 0 N)"
      using j assms(3) unfolding set_historyTimestamps by auto
    ultimately show "ts \<in> ?A" unfolding tg using i(1) by auto
  qed
  show "?B = ?B'"
  proof (intro set_eqI iffI)
    fix c assume "c \<in> ?B"
    then obtain j i where j: "j < N" and i: "i < 10"
      "c = base + 10000 * int m - 10000 - 10000 * int i"
      and "base + 10000 * int m - 10000 - 10000 * int i \<le> start + 10000 * int j
           \<and> start + 10000 * int j < base + 10000 * int m - 10000 - 10000 * int i + 10000"
      unfolding tg set_historyTimestamps by auto
    then have m: "j + 1 + i = m" using one [of m i j] by simp
    then have "int m = int j + 1 + int i" by linarith
    then have "c = base + 10000 * int j" using i(2) by simp
    moreover have "j \<in> {m - 10..<m}" using m i(1) by auto
    ultimately show "c \<in> ?B'" by blast
  next
    fix c assume "c \<in> ?B'"
    then obtain j where j: "m - 10 \<le> j" "j < m" "c = base + 10000 * int j" by auto
    define i where "i = m - 1 - j"
    have i: "i < 10" "j + 1 + i = m" using j(1,2) by (auto simp: i_def)
    then have "int m = int j + 1 + int i" by linarith
    then have c: "c = base + 10000 * int m - 10000 - 10000 * int i" using j(3) by simp
    have "base + 10000 * int m - 10000 - 10000 * int i \<le> start + 10000 * int j
           \<and> start + 10000 * int j < base + 10000 * int m - 10000 - 10000 * int i + 10000"
      using one [of m i j] i(2) by simp
    moreover have "start + 10000 * int j \<in> set (historyTimestamps start 10000 0 N)"
      using j assms(3) unfolding set_historyTimestamps by auto
    ultimately have "\<exists>ts \<in> set (historyTimestamps start 10000 0 N). c \<le> ts \<and> ts < c + 10000"
      unfolding c by blast
    moreover have "c \<in> set (targetTimestamps (base + 10000 * int m - 10000))"
      unfolding tg c using i(1) by auto
    ultimately show "c \<in> ?B" by simp
  qed
qed

lemma backfillCursor_slice:
  assumes "orderedTimestamps (stateRef e) = historyTimestamps start 10000 m N"
    and "m < N"
    and "backfillCursorRef e = None
         \<or> backfillCursorRef e = Some (roundToPrevious10s start + 10000 * int m - 10000)"
  shows "backfillCursor e = Some (roundToPrevious10s start + 10000 * int m - 10000)"
  using assms
  by (auto simp: backfillCursor_def first_opt_historyTimestamps round_shift BACKFILL_STEP_MS_def)

lemma historyTimestamps_extend:
  "m \<le> N \<Longrightarrow>
   set (historyTimestamps start 10000 m N) \<union> (\<lambda>j. start + 10000 * int j) ` {m - 10..<m} =
   set (historyTimestamps start 10000 (m - 10) N)"
proof -
  assume "m \<le> N"
  then have "{m - 10..<N} = {m..<N} \<union> {m - 10..<m}" by auto
  then show ?thesis unfolding set_historyTimestamps by (simp add: image_Un)
qed

lemma backfillIteration_slice:
  fixes e :: "(int, unit, unit, unit) Engine"
  assumes o: "orderedTimestamps (stateRef e) = historyTimestamps start 10000 m N"
    and mN: "m < N"
    and cur: "backfillCursorRef e = None
              \<or> backfillCursorRef e = Some (roundToPrevious10s start + 10000 * int m - 10000)"
  shows "\<exists>e'. backfillIteration (\<lambda>t. t) T (sliceUpstream (historyTimestamps start 10000 0 N)) e
                = (0 < m, e')
            \<and> orderedTimestamps (stateRef e') = historyTimestamps start 10000 (m - 10) N
            \<and> hasFirstFrame (stateRef e') = (m = 0 \<or> hasFirstFrame (stateRef e))
            \<and> isMountedRef e' = isMountedRef e
            \<and> cancelBackfillRef e' = cancelBackfillRef e
            \<and> (0 < m \<longrightarrow> backfillCursorRef e'
                  = Some (roundToPrevious10s start + 10000 * int (m - 10) - 10000))"
proof -
  define base where "base = roundToPrevious10s start"
  define hist where "hist = historyTimestamps start 10000 0 N"
  define cursor where "cursor = base + 10000 * int m - 10000"
  define e0 where "e0 = e\<lparr> backfillCursorRef := Some cursor \<rparr>"
  have bs: "base \<le> start" "start < base + 10000"
    by (simp_all add: base_def round_le round_gt)
  have c: "backfillCursor e = Some cursor"
    using backfillCursor_slice [OF o mN cur] by (simp add: cursor_def base_def)
  obtain e1 pr where pr:
    "fold (processResult (\<lambda>t. t) T)
       (map (\<lambda>c. fetchWithRetry (sliceUpstream hist) c 0) (targetTimestamps cursor))
       (e0, \<lparr> anyProgress = False, sawFrames = False, earliestFetchedTimestamp = None \<rparr>) = (e1, pr)"
    by (metis surj_pair)
  have st0: "sorted (orderedTimestamps (stateRef e0)) \<and> distinct (orderedTimestamps (stateRef e0))"
    using historyTimestamps_strict [of 10000 start m N] by (simp add: e0_def o)
  note A = slices_of_batch(1) [OF bs mN, folded hist_def cursor_def]
  note B = slices_of_batch(2) [OF bs mN, folded hist_def cursor_def]
  note F = fold_processResult_slice [OF pr st0, of "{}", unfolded A B]
  have f1: "set (orderedTimestamps (stateRef e1)) = set (historyTimestamps start 10000 (m - 10) N)"
    and f2: "sorted (orderedTimestamps (stateRef e1)) \<and> distinct (orderedTimestamps (stateRef e1))"
    and f3: "\<not> anyProgress pr"
    and f5: "earliestFetchedTimestamp pr = None \<longleftrightarrow> (\<lambda>j. base + 10000 * int j) ` {m - 10..<m} = {}"
    and f6: "\<forall>y. earliestFetchedTimestamp pr = Some y \<longrightarrow>
               y \<in> (\<lambda>j. base + 10000 * int j) ` {m - 10..<m}
               \<and> (\<forall>z \<in> (\<lambda>j. base + 10000 * int j) ` {m - 10..<m}. y \<le> z)"
    and f7: "hasFirstFrame (stateRef e1) = hasFirstFrame (stateRef e)"
      "isMountedRef e1 = isMountedRef e" "cancelBackfillRef e1 = cancelBackfillRef e"
    using F historyTimestamps_extend [of m N start] mN by (simp_all add: e0_def o)
  have f4: "sawFrames pr = (0 < m)"
  proof -
    have "sawFrames pr = (\<exists>c \<in> set (targetTimestamps cursor). \<exists>ts \<in> set hist. c \<le> ts \<and> ts < c + 10000)"
      using fold_processResult_slice [OF pr st0, of "{}"] by simp
    also have "\<dots> = ((\<lambda>j. base + 10000 * int j) ` {m - 10..<m} \<noteq> {})"
      unfolding B [symmetric] by blast
    also have "\<dots> = (0 < m)" by auto
    finally show ?thesis .
  qed
  have ord1: "orderedTimestamps (stateRef e1) = historyTimestamps start 10000 (m - 10) N"
    using f1 f2 historyTimestamps_strict [of 10000 start "m - 10" N]
    by (intro sorted_distinct_set_unique) simp_all
  have pr': "processResults (\<lambda>t. t) T
       (map (\<lambda>c. fetchWithRetry (sliceUpstream hist) c 0) (targetTimestamps cursor)) e0 = (e1, pr)"
    using pr by (simp add: processResults_def)
  show ?thesis
  proof (cases "0 < m")
    case False
    then have "backfillIteration (\<lambda>t. t) T (sliceUpstream hist) e = (False, markHasFirstFrame e1)"
      using f3 f4
      by (simp add: backfillIteration_def c Let_def pr' e0_def [symmetric])
    moreover have "isMountedRef (markHasFirstFrame e1) = isMountedRef e1"
      "cancelBackfillRef (markHasFirstFrame e1) = cancelBackfillRef e1"
      by (simp_all add: markHasFirstFrame_def setFrameState_def)
    ultimately show ?thesis
      using False markHasFirstFrame_fields [of e1] ord1 f7
      by (simp add: hist_def)
  next
    case True
    then obtain y where y: "earliestFetchedTimestamp pr = Some y" using f5 by auto
    have "m - 10 \<in> {m - 10..<m}" using True by auto
    then have "y \<le> base + 10000 * int (m - 10)" using f6 y by blast
    moreover obtain j where "y = base + 10000 * int j" "m - 10 \<le> j" using f6 y by auto
    ultimately have yv: "y = base + 10000 * int (m - 10)" by simp
    obtain timer where t:
      "seeing (stateRef e) ensureScheduler (e1\<lparr> backfillCursorRef := Some (y - BACKFILL_STEP_MS) \<rparr>)
       = (e1\<lparr> backfillCursorRef := Some (y - BACKFILL_STEP_MS) \<rparr>)\<lparr> schedulerTimerRef := timer \<rparr>"
      using seeing_ensureScheduler_timer_only by blast
    have "backfillIteration (\<lambda>t. t) T (sliceUpstream hist) e =
            (True, (e1\<lparr> backfillCursorRef := Some (y - BACKFILL_STEP_MS) \<rparr>)\<lparr> schedulerTimerRef := timer \<rparr>)"
      using f3 f4 True y t
      by (simp add: backfillIteration_def c Let_def pr' e0_def [symmetric])
    then show ?thesis
      using True ord1 f7 yv
      by (simp add: hist_def BACKFILL_STEP_MS_def base_def)
  qed
qed


subsection \<open>The number of batches\<close>

lemma batches_step:
  assumes "0 < (m::nat)"
  shows "Suc ((m - 10 + 9) div 10 + 1) = (m + 9) div 10 + 1"
proof (cases "m < 10")
  case True
  then have "(m + 9) div 10 = 1" using assms by simp
  then show ?thesis using True by simp
next
  case False
  then obtain k where k: "m = k + 10" by (metis add.commute le_Suc_ex not_less)
  show ?thesis by (simp add: k)
qed

lemma batches_step_le:
  assumes "0 < (m::nat)"
  shows "(m - 10 + 9) div 10 + 1 \<le> (m + 9) div 10"
  using batches_step [OF assms] by simp

lemma backfillLoop_slice:
  fixes e :: "(int, unit, unit, unit) Engine"
  assumes "orderedTimestamps (stateRef e) = historyTimestamps start 10000 m N"
      and "m < N"
      and "backfillCursorRef e = None
           \<or> backfillCursorRef e = Some (roundToPrevious10s start + 10000 * int m - 10000)"
      and "isMountedRef e" and "\<not> cancelBackfillRef e" and "\<not> hasFirstFrame (stateRef e)"
      and "(m + 9) div 10 + 1 \<le> fuel"
  shows "\<exists>seen e'. backfillLoop (\<lambda>t. t) T (sliceUpstream (historyTimestamps start 10000 0 N)) fuel e =
                 Some ((m + 9) div 10 + 1, seen, e')
           \<and> hasFirstFrame (stateRef e')
           \<and> orderedTimestamps (stateRef e') = historyTimestamps start 10000 0 N"
  using assms
proof (induction m arbitrary: e fuel rule: less_induct)
  case (less m)
  let ?up = "sliceUpstream (historyTimestamps start 10000 0 N)"
  obtain fuel' where fuel: "fuel = Suc fuel'" using less.prems(7) by (cases fuel) auto
  have ne: "orderedTimestamps (stateRef e) \<noteq> []"
    using less.prems(1,2) by (simp add: historyTimestamps_def)
  obtain e' where it: "backfillIteration (\<lambda>t. t) T ?up e = (0 < m, e')"
    and o': "orderedTimestamps (stateRef e') = historyTimestamps start 10000 (m - 10) N"
    and h': "hasFirstFrame (stateRef e') = (m = 0 \<or> hasFirstFrame (stateRef e))"
    and k': "isMountedRef e' = isMountedRef e" "cancelBackfillRef e' = cancelBackfillRef e"
      "0 < m \<longrightarrow> backfillCursorRef e'
          = Some (roundToPrevious10s start + 10000 * int (m - 10) - 10000)"
    using backfillIteration_slice [OF less.prems(1-3), of T] by blast
  show ?case
  proof (cases "0 < m")
    case False
    then have "backfillLoop (\<lambda>t. t) T ?up fuel e = Some (1, stateRef e, e')"
      using less.prems(4-6) ne it
      by (subst backfillLoop.simps) (simp add: fuel)
    then show ?thesis using False o' h' by simp
  next
    case True
    have lt: "m - 10 < m" using True by simp
    have "(m - 10 + 9) div 10 + 1 \<le> (m + 9) div 10" using True by (rule batches_step_le)
    then have fuel': "(m - 10 + 9) div 10 + 1 \<le> fuel'" using less.prems(7) fuel by simp
    have prems': "m - 10 < N" "isMountedRef e'" "\<not> cancelBackfillRef e'"
      "\<not> hasFirstFrame (stateRef e')"
      "backfillCursorRef e' = None \<or>
           backfillCursorRef e' = Some (roundToPrevious10s start + 10000 * int (m - 10) - 10000)"
      using less.prems True k' h' by simp_all
    obtain seen e'' where rest: "backfillLoop (\<lambda>t. t) T ?up fuel' e' =
                 Some ((m - 10 + 9) div 10 + 1, seen, e'')"
      and fin: "hasFirstFrame (stateRef e'')"
        "orderedTimestamps (stateRef e'') = historyTimestamps start 10000 0 N"
      using less.IH [OF lt o' prems'(1) prems'(5) prems'(2-4) fuel'] by blast
    have count: "Suc ((m - 10 + 9) div 10 + 1) = (m + 9) div 10 + 1"
      using True by (rule batches_step)
    have "backfillLoop (\<lambda>t. t) T ?up fuel e =
            Some (Suc ((m - 10 + 9) div 10 + 1), seen, e'')"
      using less.prems(4-6) ne it True rest
      by (subst backfillLoop.simps) (simp add: fuel)
    then show ?thesis using fin count by simp
  qed
qed

lemma runBackfill_slice:
  fixes e :: "(int, unit, unit, unit) Engine"
  assumes "gameId \<noteq> []" and "m < N"
      and "orderedTimestamps (stateRef e) = historyTimestamps start 10000 m N"
      and "\<not> hasFirstFrame (stateRef e)" and "isMountedRef e" and "\<not> backfillRunningRef e"
      and "backfillCursorRef e = None" and "(m + 9) div 10 + 1 \<le> fuel"
  shows "\<exists>e'. runBackfill gameId (\<lambda>t. t) T (sliceUpstream (historyTimestamps start 10000 0 N)) fuel e =
                 Some ((m + 9) div 10 + 1, e')
           \<and> hasFirstFrame (stateRef e')
           \<and> orderedTimestamps (stateRef e') = historyTimestamps start 10000 0 N"
proof -
  let ?up = "sliceUpstream (historyTimestamps start 10000 0 N)"
  define e1 where "e1 = setFrameState
                   (\<lambda>prev. if isBackfilling prev then prev else prev\<lparr> isBackfilling := True \<rparr>)
                   (e\<lparr> backfillRunningRef := True, cancelBackfillRef := False \<rparr>)"
  have p: "orderedTimestamps (stateRef e1) = historyTimestamps start 10000 m N"
    "backfillCursorRef e1 = None
     \<or> backfillCursorRef e1 = Some (roundToPrevious10s start + 10000 * int m - 10000)"
    "isMountedRef e1" "\<not> cancelBackfillRef e1" "\<not> hasFirstFrame (stateRef e1)"
    using assms by (simp_all add: e1_def setFrameState_def)
  obtain seen e2 where loop: "backfillLoop (\<lambda>t. t) T ?up fuel e1 =
                 Some ((m + 9) div 10 + 1, seen, e2)"
    and h2: "hasFirstFrame (stateRef e2)"
    and o2: "orderedTimestamps (stateRef e2) = historyTimestamps start 10000 0 N"
    using backfillLoop_slice [OF p(1) assms(2) p(2-5) assms(8), of T] by blast
  define e3 where "e3 = setFrameState
                       (\<lambda>prev. if isBackfilling prev then prev\<lparr> isBackfilling := False \<rparr>
                               else prev)
                       (e2\<lparr> backfillRunningRef := False,
                            backfillStartedRef := hasFirstFrame seen \<rparr>)"
  have "runBackfill gameId (\<lambda>t. t) T ?up fuel e =
          Some ((m + 9) div 10 + 1, seeing seen ensureScheduler e3)"
    using assms(1,6) loop by (simp add: runBackfill_def Let_def e1_def [symmetric] e3_def)
  moreover have "hasFirstFrame (stateRef (seeing seen ensureScheduler e3))"
    "orderedTimestamps (stateRef (seeing seen ensureScheduler e3)) = historyTimestamps start 10000 0 N"
    using h2 o2 by (simp_all add: stateRef_seeing e3_def setFrameState_def)
  ultimately show ?thesis by blast
qed


section \<open>Playback controls: the claims\<close>

text \<open>
  Claim C10. For every number \<open>x\<close>, \<open>setSpeedFactor x\<close> stores
  \<open>max 0.5 (min 10 x)\<close> as the speed factor, which therefore lies in \<open>[0.5, 10]\<close>,
  and changes nothing else: every other state field and every reference keeps its value.
\<close>

theorem setSpeedFactor_clamps:
  "setSpeedFactor x e = e\<lparr> stateRef := (stateRef e)\<lparr> speedFactor := max 0.5 (min 10 x) \<rparr> \<rparr>
   \<and> 0.5 \<le> speedFactor (stateRef (setSpeedFactor x e))
   \<and> speedFactor (stateRef (setSpeedFactor x e)) \<le> 10"
  by (simp add: setSpeedFactor_def setFrameState_def MAX_SPEED_FACTOR_def)

text \<open>
  Claim C8. From manual mode (\<open>playbackPointer\<close> set), \<open>goLive\<close> clears
  \<open>playbackPointer\<close>, sets \<open>displayIndex\<close> to \<open>livePointer\<close>, clears the pause flag
  and leaves every other state field as it was; in particular the speed factor, both
  frame maps, the ordered timestamps, the metadata, the desired lag, \<open>hasFirstFrame\<close>
  and the play queue.
\<close>

theorem goLive_frame:
  assumes "playbackPointer (stateRef e) \<noteq> None"
  shows "stateRef (goLive e) =
           (stateRef e)\<lparr> playbackPointer := None, displayIndex := livePointer (stateRef e),
                          isLivePaused := False \<rparr>
         \<and> speedFactor (stateRef (goLive e)) = speedFactor (stateRef e)
         \<and> framesWindow (stateRef (goLive e)) = framesWindow (stateRef e)
         \<and> framesDetails (stateRef (goLive e)) = framesDetails (stateRef e)
         \<and> orderedTimestamps (stateRef (goLive e)) = orderedTimestamps (stateRef e)
         \<and> metadata (stateRef (goLive e)) = metadata (stateRef e)
         \<and> desiredLagMs (stateRef (goLive e)) = desiredLagMs (stateRef e)
         \<and> hasFirstFrame (stateRef (goLive e)) = hasFirstFrame (stateRef e)
         \<and> playQueue (stateRef (goLive e)) = playQueue (stateRef e)"
  using assms by (auto simp: stateRef_goLive)

theorem goLive_frame_witness:
  "playbackPointer (stateRef scrubbedEngine) \<noteq> None \<and>
   stateRef (goLive scrubbedEngine) =
     (stateRef scrubbedEngine)\<lparr> playbackPointer := None,
        displayIndex := livePointer (stateRef scrubbedEngine), isLivePaused := False \<rparr>"
proof -
  have h: "playbackPointer (stateRef scrubbedEngine) \<noteq> None"
    by (simp add: scrubbedEngine_eq)
  show ?thesis using h goLive_frame [OF h] by simp
qed

text \<open>
  Claim C6. When \<open>showNextFrame\<close> runs in manual mode with \<open>playbackPointer\<close> at (or
  beyond) \<open>livePointer\<close>: if the match is not final the session returns to live-follow
  (\<open>playbackPointer\<close> cleared, \<open>displayIndex\<close> set to \<open>livePointer\<close>, pause flag
  cleared); if the match is final only the pause flag is set, and \<open>playbackPointer\<close>
  and \<open>displayIndex\<close> keep their values.
\<close>

theorem showNextFrame_past_last:
  assumes "isMountedRef e" and "playbackPointer (stateRef e) = Some p"
      and "livePointer (stateRef e) \<le> p"
  shows "stateRef (showNextFrame e) =
           (if isFinal (stateRef e) then (stateRef e)\<lparr> isLivePaused := True \<rparr>
            else (stateRef e)\<lparr> playbackPointer := None,
                   displayIndex := livePointer (stateRef e), isLivePaused := False \<rparr>)"
  using assms by (simp add: stateRef_showNextFrame showNextFrameUpdater_def)

theorem showNextFrame_past_last_witness:
  "stateRef (showNextFrame (atLastEngine False)) =
     (stateRef (atLastEngine False))\<lparr> playbackPointer := None, displayIndex := 3,
        isLivePaused := False \<rparr>
   \<and> stateRef (showNextFrame (atLastEngine True)) =
       (stateRef (atLastEngine True))\<lparr> isLivePaused := True \<rparr>
   \<and> playbackPointer (stateRef (showNextFrame (atLastEngine True))) = Some 3
   \<and> displayIndex (stateRef (showNextFrame (atLastEngine True))) = 3"
  using showNextFrame_past_last [of "atLastEngine False" 3]
        showNextFrame_past_last [of "atLastEngine True" 3]
  by (simp add: atLastEngine_def engineOf_def liveStateAt_def)

text \<open>
  Claim C7, as amended. On a non-empty index \<open>setPlaybackByEpoch\<close> finds the index whose
  timestamp is closest to the requested epoch. If \<open>playbackPointer\<close> already equals
  that index the call changes nothing (the session stays as it is, playing or paused,
  with its timer). Otherwise \<open>playbackPointer\<close> and \<open>displayIndex\<close> are both set to
  that index, the pause flag is set, the scheduler timer is cleared and \<open>isLive\<close>
  is false. In particular \<open>scrubTo(10000)\<close> on the index \<open>[0, 10000, 20000, 30000]\<close> in
  live mode selects index 1.
\<close>

theorem setPlaybackByEpoch_scrub:
  assumes "orderedTimestamps (stateRef e) \<noteq> []"
      and "index = findClosestTimestampIndex (orderedTimestamps (stateRef e)) epoch"
      and "e' = setPlaybackByEpoch epoch e"
  shows "0 \<le> index \<and> index < int (length (orderedTimestamps (stateRef e)))
         \<and> list_all (\<lambda>ts. \<bar>orderedTimestamps (stateRef e) ! nat index - epoch\<bar> \<le> \<bar>ts - epoch\<bar>)
              (orderedTimestamps (stateRef e))
         \<and> (if playbackPointer (stateRef e) = Some index then e' = e
             else stateRef e' = (stateRef e)\<lparr> playbackPointer := Some index,
                                  displayIndex := index, isLivePaused := True \<rparr>
                  \<and> schedulerTimerRef e' = None
                  \<and> \<not> isLive (stateRef e'))"
proof -
  have i0: "0 \<le> index" and i1: "index < int (length (orderedTimestamps (stateRef e)))"
    using findClosest_props(1,2) [OF assms(1), of epoch] assms(2) by auto
  have closest: "list_all (\<lambda>ts. \<bar>orderedTimestamps (stateRef e) ! nat index - epoch\<bar> \<le> \<bar>ts - epoch\<bar>)
              (orderedTimestamps (stateRef e))"
    unfolding list_all_length
    using findClosest_props(3) [OF assms(1), of _ epoch] assms(2) by auto
  show ?thesis
  proof (cases "playbackPointer (stateRef e) = Some index")
    case True
    then have "e' = e" using assms i0 by (simp add: setPlaybackByEpoch_def Let_def)
    then show ?thesis using True i0 i1 closest by simp
  next
    case False
    then have e': "e' = (stopScheduler e)
                     \<lparr> stateRef := (stateRef e)\<lparr> playbackPointer := Some index,
                          displayIndex := index, isLivePaused := True \<rparr> \<rparr>"
      using assms i0 by (simp add: setPlaybackByEpoch_def Let_def)
    show ?thesis using False i0 i1 closest
      by (simp add: e' stopScheduler_def isLive_def)
  qed
qed

theorem setPlaybackByEpoch_scrub_witness:
  "stateRef (setPlaybackByEpoch 10000 (engineOf (liveStateAt [0, 10000, 20000, 30000]))) =
     (liveStateAt [0, 10000, 20000, 30000])\<lparr> playbackPointer := Some 1, displayIndex := 1,
        isLivePaused := True \<rparr>
   \<and> schedulerTimerRef (setPlaybackByEpoch 10000 (engineOf (liveStateAt [0, 10000, 20000, 30000]))) = None
   \<and> \<not> isLive (stateRef (setPlaybackByEpoch 10000 (engineOf (liveStateAt [0, 10000, 20000, 30000]))))"
proof -
  define e where "e = engineOf (liveStateAt [0, 10000, 20000, 30000])"
  have st: "stateRef e = liveStateAt [0, 10000, 20000, 30000]"
    by (simp add: e_def engineOf_def)
  have i: "findClosestTimestampIndex (orderedTimestamps (stateRef e)) 10000 = 1"
    by (simp add: st liveStateAt_def findClosestTimestampIndex_def)
  have h1: "orderedTimestamps (stateRef e) \<noteq> []" by (simp add: st liveStateAt_def)
  have h2: "playbackPointer (stateRef e) \<noteq> Some 1"
    by (simp add: st liveStateAt_def)
  have "stateRef (setPlaybackByEpoch 10000 e) =
          (stateRef e)\<lparr> playbackPointer := Some 1, displayIndex := 1, isLivePaused := True \<rparr>
        \<and> schedulerTimerRef (setPlaybackByEpoch 10000 e) = None
        \<and> \<not> isLive (stateRef (setPlaybackByEpoch 10000 e))"
    using setPlaybackByEpoch_scrub [OF h1 refl refl, of 10000] h2 unfolding i
    by (simp add: isLive_def)
  then show ?thesis unfolding st unfolding e_def .
qed

text \<open>
  The claim as stated (from any state the session ends paused with the timer stopped)
  fails in the session that scrubbed to 10000 and then called \<open>resumeLive\<close> twice
  (the first call clears the pause flag, the second arms the timer): it is playing at
  index 1 with a timer armed, and scrubbing to 10000 again leaves it playing.
\<close>

theorem setPlaybackByEpoch_same_index_counterexample:
  "playbackPointer (stateRef playingEngine) = Some 1
   \<and> setPlaybackByEpoch 10000 playingEngine = playingEngine
   \<and> \<not> isLivePaused (stateRef (setPlaybackByEpoch 10000 playingEngine))
   \<and> schedulerTimerRef (setPlaybackByEpoch 10000 playingEngine) = Some 4000"
  by (simp add: playingEngine_eq setPlaybackByEpoch_def findClosestTimestampIndex_def
        example_defs)

section \<open>mergeFrames: the claims\<close>

text \<open>
  Claim C2. After any sequence of \<open>mergeFrames\<close> calls on a fresh session, with
  arbitrary window and details frame lists (out of order, overlapping, duplicated),
  \<open>orderedTimestamps\<close> is strictly increasing and has no duplicates.
\<close>

theorem mergeAll_strictly_increasing:
  "sorted_wrt (<) (orderedTimestamps (mergeAll E T ms createInitialState))
   \<and> distinct (orderedTimestamps (mergeAll E T ms createInitialState))"
proof -
  have "sorted (orderedTimestamps (createInitialState :: ('a, 'b, 'c, 'd) FrameIndexState))
        \<and> distinct (orderedTimestamps (createInitialState :: ('a, 'b, 'c, 'd) FrameIndexState))"
    by (simp add: createInitialState_def)
  from mergeAll_keeps_strict [OF this] show ?thesis
    by (simp add: strict_sorted_iff)
qed

text \<open>
  Claim C1. In live regime (\<open>playbackPointer\<close> is null) with \<open>displayIndex\<close> resolving
  to a timestamp \<open>t\<close>, after one \<open>mergeFrames\<close> call, whatever frames it adds and
  however it re-sorts the index, \<open>displayIndex\<close> resolves to a timestamp not smaller
  than \<open>t\<close>; the same holds after any sequence of merges, and the session is still in
  live regime.
\<close>

theorem live_display_never_rewinds:
  assumes "playbackPointer s = None" and "displayedTs s = Some t"
  shows "(\<exists>t'. displayedTs (snd (mergeFrames E T ws ds md s)) = Some t' \<and> t \<le> t')
         \<and> (\<exists>t'. displayedTs (mergeAll E T ms s) = Some t' \<and> t \<le> t')
         \<and> playbackPointer (mergeAll E T ms s) = None"
  using displayedTs_mergeFrames [OF assms(2)] mergeAll_live_display [OF assms]
  by simp


theorem live_display_never_rewinds_witness:
  "playbackPointer (liveStateAt [0, 10000, 20000]) = None
   \<and> displayedTs (liveStateAt [0, 10000, 20000]) = Some 20000
   \<and> (\<exists>t'. displayedTs backfilledState = Some t' \<and> 20000 \<le> t')
   \<and> (\<exists>t'. displayedTs (mergeAll (\<lambda>t. t) isTerminalExample pollAndBackfill
                (liveStateAt [0, 10000, 20000])) = Some t' \<and> 20000 \<le> t')"
proof -
  have a: "playbackPointer (liveStateAt [0, 10000, 20000]) = None"
    by (simp add: liveStateAt_def)
  show ?thesis
    using a displayedTs_live_example
      live_display_never_rewinds [OF a displayedTs_live_example, of "\<lambda>t. t" isTerminalExample
        "map frameAt [- 30000, - 20000, - 10000]" "[]" None pollAndBackfill]
    unfolding backfilledState_def by blast
qed

text \<open>
  Claim C3. A merge relocates every index-valued pointer by the timestamp it resolved
  to: if \<open>displayIndex\<close> resolved to \<open>t\<close> before the merge it resolves to \<open>t\<close> after
  it, and when the merge carries frames it is the position of \<open>t\<close> in the new order;
  if \<open>playbackPointer\<close> resolved to \<open>t'\<close> it resolves to \<open>t'\<close> afterwards. With the
  index \<open>[0, 10000, 20000]\<close> in live mode displaying 20000, merging frames at
  \<open>[-30000, -20000, -10000]\<close> gives the order
  \<open>[-30000, -20000, -10000, 0, 10000, 20000]\<close> and \<open>displayIndex = 5\<close>.
\<close>

theorem pointers_follow_timestamps:
  "(displayedTs prev = Some t \<longrightarrow>
      displayedTs (snd (mergeFrames E T ws ds md prev)) = Some t
      \<and> (ws \<noteq> [] \<or> ds \<noteq> [] \<longrightarrow>
           displayIndex (snd (mergeFrames E T ws ds md prev)) =
             indexOf (orderedTimestamps (snd (mergeFrames E T ws ds md prev))) t))
   \<and> (selectedTimestamp prev = Some t' \<longrightarrow>
        selectedTimestamp (snd (mergeFrames E T ws ds md prev)) = Some t')
   \<and> orderedTimestamps backfilledState = [- 30000, - 20000, - 10000, 0, 10000, 20000]
   \<and> displayIndex backfilledState = 5"
  using displayedTs_mergeFrames [of prev t E T ws ds md]
        displayIndex_mergeFrames [of prev t ws ds md E T]
        selectedTimestamp_mergeFrames [of prev t' E T ws ds md]
        backfilledState_index
  by auto

theorem pointers_follow_timestamps_witness:
  "displayedTs (liveStateAt [0, 10000, 20000]) = Some 20000
   \<and> displayedTs backfilledState = Some 20000
   \<and> displayIndex backfilledState = indexOf (orderedTimestamps backfilledState) 20000
   \<and> selectedTimestamp (stateRef scrubbedEngine) = Some 10000
   \<and> selectedTimestamp
        (snd (mergeFrames (\<lambda>t. t) isTerminalExample (map frameAt [- 10000]) [] None
                (stateRef scrubbedEngine))) = Some 10000"
proof -
  have a: "displayedTs (liveStateAt [0, 10000, 20000]) = Some 20000"
    by (rule displayedTs_live_example)
  have b: "selectedTimestamp (stateRef scrubbedEngine) = Some 10000"
    by (simp add: scrubbedEngine_eq selectedTimestamp_def nth_opt_def liveStateAt_def)
  have c: "map frameAt [- 30000, - 20000, - 10000] \<noteq> []" by simp
  show ?thesis
    using a b c
      pointers_follow_timestamps [where prev = "liveStateAt [0, 10000, 20000]" and t = 20000
        and E = "\<lambda>t. t" and T = isTerminalExample
        and ws = "map frameAt [- 30000, - 20000, - 10000]" and ds = "[]" and md = None]
      pointers_follow_timestamps [where prev = "stateRef scrubbedEngine" and t' = 10000
        and E = "\<lambda>t. t" and T = isTerminalExample
        and ws = "map frameAt [- 10000]" and ds = "[]" and md = None]
    unfolding backfilledState_def by blast
qed


section \<open>Scheduler speed: the claims\<close>

text \<open>
  Claim C9, as amended. The delay of a scheduler step is the spacing of the pair of
  timestamps divided by the speed factor, clamped to \<open>[150, 4000]\<close> milliseconds. For a
  spacing between 300 and 4000 milliseconds, where neither delay is clamped, the delay
  at speed factor 2 is exactly half the delay at speed factor 1. No sequence of merges,
  scheduler steps and other commands changes the speed factor unless it contains a
  \<open>setSpeedFactor\<close> call.
\<close>

theorem speed_halves_unclamped_delay:
  "(isMountedRef e \<and> rawDelta (stateRef e) = Some delta \<and> 300 \<le> delta \<and> delta \<le> 4000 \<longrightarrow>
      schedulerTimerRef (scheduleNextFrame (setSpeedFactor 1 e)) = Some delta
      \<and> schedulerTimerRef (scheduleNextFrame (setSpeedFactor 2 e)) = Some (delta / 2))
   \<and> (isMountedRef e \<and> rawDelta (stateRef e) = Some delta \<and> 0 < delta \<longrightarrow>
        schedulerTimerRef (scheduleNextFrame (setSpeedFactor f e)) =
          Some (max 150 (min 4000 (delta / max 0.5 (min 10 f)))))
   \<and> (list_all (\<lambda>c. \<not> isSetSpeedFactor c) cs \<longrightarrow>
        speedFactor (stateRef (performAll E T cs e)) = speedFactor (stateRef e))"
proof -
  have a: "schedulerTimerRef (scheduleNextFrame (setSpeedFactor 1 e)) = Some delta
      \<and> schedulerTimerRef (scheduleNextFrame (setSpeedFactor 2 e)) = Some (delta / 2)"
    if "isMountedRef e" "rawDelta (stateRef e) = Some delta" "300 \<le> delta" "delta \<le> 4000"
    using that timer_scheduleNextFrame [OF that(1,2)]
    by (simp add: stepDelay_def MIN_FRAME_MS_def MAX_FRAME_MS_def)
  have b: "schedulerTimerRef (scheduleNextFrame (setSpeedFactor f e)) =
          Some (max 150 (min 4000 (delta / max 0.5 (min 10 f))))"
    if "isMountedRef e" "rawDelta (stateRef e) = Some delta" "0 < delta"
    using that timer_scheduleNextFrame [OF that(1,2)]
    by (simp add: stepDelay_def MIN_FRAME_MS_def MAX_FRAME_MS_def)
  show ?thesis using a b speedFactor_performAll [of cs E T e] by blast
qed

theorem speed_halves_unclamped_delay_witness:
  "isMountedRef closeFramesEngine \<and> rawDelta (stateRef closeFramesEngine) = Some 1000
   \<and> schedulerTimerRef (scheduleNextFrame (setSpeedFactor 1 closeFramesEngine)) = Some 1000
   \<and> schedulerTimerRef (scheduleNextFrame (setSpeedFactor 2 closeFramesEngine)) = Some 500
   \<and> schedulerTimerRef (scheduleNextFrame (setSpeedFactor 8 closeFramesEngine)) = Some 150
   \<and> speedFactor (stateRef (performAll (\<lambda>t. t) isTerminalExample sessionCommands closeFramesEngine)) = 1"
proof -
  have m: "isMountedRef closeFramesEngine" by (simp add: closeFramesEngine_def engineOf_def)
  have r: "rawDelta (stateRef closeFramesEngine) = Some 1000"
    by (simp add: closeFramesEngine_def engineOf_def liveStateAt_def rawDelta_def nth_opt_def)
  have c: "list_all (\<lambda>c. \<not> isSetSpeedFactor c) sessionCommands"
    by (simp add: sessionCommands_def)
  have s: "speedFactor (stateRef closeFramesEngine) = 1"
    by (simp add: closeFramesEngine_def engineOf_def liveStateAt_def)
  show ?thesis
    using m r c s
      speed_halves_unclamped_delay [where e = closeFramesEngine and delta = 1000 and f = 8
        and cs = sessionCommands and E = "\<lambda>t. t" and T = isTerminalExample]
    by simp
qed

text \<open>
  The claim as stated fails for the usual spacing of ten seconds: playing at index 1 of
  \<open>[0, 10000, 20000, 30000]\<close> the delay is 4000 milliseconds at speed factor 1 and at
  speed factor 2.
\<close>

theorem speed_halving_clamped_counterexample:
  "rawDelta (stateRef playingEngine) = Some 10000
   \<and> schedulerTimerRef (scheduleNextFrame (setSpeedFactor 1 playingEngine)) = Some 4000
   \<and> schedulerTimerRef (scheduleNextFrame (setSpeedFactor 2 playingEngine)) = Some 4000
   \<and> schedulerTimerRef (scheduleNextFrame (setSpeedFactor 2 playingEngine)) \<noteq>
       map_option (\<lambda>dt. dt / 2)
         (schedulerTimerRef (scheduleNextFrame (setSpeedFactor 1 playingEngine)))"
  by (simp add: playingEngine_eq engineOf_def liveStateAt_def scheduleNextFrame_def
        setSpeedFactor_def setFrameState_def rawDelta_def nth_opt_def stepDelay_def
        MIN_FRAME_MS_def MAX_FRAME_MS_def MAX_SPEED_FACTOR_def)


text \<open>
  Claim C4. \<open>mergeFrames\<close> is idempotent: calling it a second time with the same window
  frames, details frames and metadata leaves the state exactly as the first call left
  it (ordered timestamps, both frame maps, metadata and all pointers), and the second
  call reports neither earlier nor later timestamps added.
\<close>

theorem mergeFrames_idempotent:
  "snd (mergeFrames E T ws ds md (snd (mergeFrames E T ws ds md s))) =
     snd (mergeFrames E T ws ds md s)
   \<and> \<not> addedEarlier (fst (mergeFrames E T ws ds md (snd (mergeFrames E T ws ds md s))))
   \<and> \<not> addedLater (fst (mergeFrames E T ws ds md (snd (mergeFrames E T ws ds md s))))"
proof (cases rule: mergeFrames_outcome [of ws ds md s])
  case noop
  then show ?thesis by (simp add: mergeFrames_noop)
next
  case updates
  define s1 where "s1 = snd (mergeFrames E T ws ds md s)"
  define X where "X = sortedTimestamps E s ws ds"
  have s1: "s1 = s\<lparr> framesWindow := nextWindow E s ws,
            framesDetails := nextDetails E s ds,
            orderedTimestamps := X,
            livePointer := newLivePointer X,
            playbackPointer := newPlaybackPointer s X,
            displayIndex := newDisplayIndex s X,
            metadata := (if metadata s = None \<and> md \<noteq> None then md else metadata s),
            isFinal := ((isFinal s \<or>
                         list_ex (\<lambda>f. T (gameState f)) (map_values (nextWindow E s ws)))
                        \<or> list_ex (\<lambda>frame. T (gameState frame)) ws),
            playQueue := newPlayQueue s X (newLaterFrames E s ws ds) \<rparr>"
    by (simp add: s1_def X_def mergeFrames_updates [OF updates])
  have fw: "framesWindow s1 = nextWindow E s ws" and fd: "framesDetails s1 = nextDetails E s ds"
    and ot: "orderedTimestamps s1 = X" and lp: "livePointer s1 = newLivePointer X"
    and pp: "playbackPointer s1 = newPlaybackPointer s X"
    and di: "displayIndex s1 = newDisplayIndex s X"
    and mt: "metadata s1 = (if metadata s = None \<and> md \<noteq> None then md else metadata s)"
    and fin: "isFinal s1 = ((isFinal s \<or>
                         list_ex (\<lambda>f. T (gameState f)) (map_values (nextWindow E s ws)))
                        \<or> list_ex (\<lambda>frame. T (gameState frame)) ws)"
    by (simp_all add: s1)
  have srt: "sortedTimestamps E s1 ws ds = X"
    using sortedTimestamps_again [of s1 E s ws ds] ot by (simp add: X_def)
  show ?thesis
  proof (cases "ws \<noteq> [] \<or> ds \<noteq> []")
    case False
    then have "md \<noteq> None \<and> metadata s = None" using updates by simp
    then have "metadata s1 \<noteq> None" by (simp add: mt)
    then have "mergeFrames E T ws ds md s1 =
           (\<lparr> changed = False, addedEarlier = False, addedLater = False,
              hasFramesAfter = (orderedTimestamps s1 \<noteq> []) \<rparr>, s1)"
      using False by (intro mergeFrames_noop) simp_all
    then show ?thesis unfolding s1_def [symmetric] by simp
  next
    case True
    then have upd2: "ws \<noteq> [] \<or> ds \<noteq> [] \<or> (md \<noteq> None \<and> metadata s1 = None)" by blast
    have ne: "X \<noteq> []" unfolding X_def by (rule sortedTimestamps_nonempty [OF True])
    have dist: "distinct X" unfolding X_def using strict_sortedTimestamps [of E s ws ds] by simp
    have a: "nextWindow E s1 ws = framesWindow s1" by (rule nextWindow_again [OF fw])
    have b: "nextDetails E s1 ds = framesDetails s1" by (rule nextDetails_again [OF fd])
    have c: "newPlaybackPointer s1 X = playbackPointer s1"
      by (rule newPlaybackPointer_again [OF pp ot])
    have d: "newDisplayIndex s1 X = displayIndex s1"
      by (rule newDisplayIndex_again [OF ot ne dist pp di])
    have e: "newPlayQueue s1 X (newLaterFrames E s1 ws ds) = playQueue s1"
      using newPlayQueue_again [of s1] by (simp add: newLaterFrames_again [OF fw fd] ot)
    have f: "(if metadata s1 = None \<and> md \<noteq> None then md else metadata s1) = metadata s1"
      by (auto simp: mt)
    have g: "((isFinal s1 \<or> list_ex (\<lambda>f. T (gameState f)) (map_values (framesWindow s1)))
              \<or> list_ex (\<lambda>frame. T (gameState frame)) ws) = isFinal s1"
      unfolding fw fin by blast
    have st: "snd (mergeFrames E T ws ds md s1) = s1"
      unfolding mergeFrames_updates [OF upd2] srt a b c d e f snd_conv
      using g by (intro FrameIndexState.equality) (simp_all add: ot lp disj_assoc)
    have fl: "\<not> addedEarlier (fst (mergeFrames E T ws ds md s1))
              \<and> \<not> addedLater (fst (mergeFrames E T ws ds md s1))"
      unfolding mergeFrames_updates [OF upd2] srt
      by (simp add: ot didAddEarlier_same didAddLater_same)
    show ?thesis unfolding s1_def [symmetric] using st fl by simp
  qed
qed

theorem mergeFrames_idempotent_witness:
  "map frameAt [- 30000, - 20000, - 10000] \<noteq> []
   \<and> snd (mergeFrames (\<lambda>t. t) isTerminalExample (map frameAt [- 30000, - 20000, - 10000]) [] None
          backfilledState) = backfilledState
   \<and> \<not> addedEarlier (fst (mergeFrames (\<lambda>t. t) isTerminalExample
          (map frameAt [- 30000, - 20000, - 10000]) [] None backfilledState))
   \<and> \<not> addedLater (fst (mergeFrames (\<lambda>t. t) isTerminalExample
          (map frameAt [- 30000, - 20000, - 10000]) [] None backfilledState))"
  using mergeFrames_idempotent [of "\<lambda>t. t" isTerminalExample
          "map frameAt [- 30000, - 20000, - 10000]" "[]" None "liveStateAt [0, 10000, 20000]"]
  unfolding backfilledState_def by simp


section \<open>Backfill: the claims\<close>

text \<open>
  Claim C5, as amended. Let the upstream hold a history of \<open>N\<close> frames at a fixed
  spacing of 10 seconds, the first at any time \<open>start\<close>, so that every 10-second slice
  from the first frame's to the last frame's holds exactly one of them and a slice
  before the first holds none; let the index hold the latest \<open>N - m\<close> of them (at
  least one), on a mounted hook with a game id, no backfill under way and no cursor
  stored. Then \<open>runBackfill\<close>, given fuel for \<open>ceil (N / 10) + 1\<close> batches, leaves
  its loop with \<open>hasFirstFrame\<close> set and all \<open>N\<close> frames in the index after exactly
  \<open>ceil (m / 10) + 1\<close> batches, the last one being the empty batch that detects the
  start; that is at most \<open>ceil (N / 10) + 1\<close>. Any pass of the loop whose requests all
  bring no frame sets \<open>hasFirstFrame\<close> and leaves the loop; once \<open>hasFirstFrame\<close> is
  set the loop issues no further batch and no operation of the engine unsets it.
\<close>

theorem backfill_reaches_first_frame:
  "(gameId \<noteq> [] \<and> m < N
      \<and> orderedTimestamps (stateRef e) = historyTimestamps start 10000 m N
      \<and> \<not> hasFirstFrame (stateRef e) \<and> isMountedRef e \<and> \<not> backfillRunningRef e
      \<and> backfillCursorRef e = None \<and> (N + 9) div 10 + 1 \<le> fuel \<longrightarrow>
    (\<exists>n e'. runBackfill gameId (\<lambda>t. t) T (sliceUpstream (historyTimestamps start 10000 0 N))
               fuel e = Some (n, e')
        \<and> n = (m + 9) div 10 + 1 \<and> n \<le> (N + 9) div 10 + 1
        \<and> hasFirstFrame (stateRef e')
        \<and> orderedTimestamps (stateRef e') = historyTimestamps start 10000 0 N))
   \<and> (backfillCursor eb = Some cur
       \<and> list_all (\<lambda>targetCursor. yieldsNoFrames (fetchWithRetry upstream targetCursor 0))
            (targetTimestamps cur) \<longrightarrow>
       \<not> fst (backfillIteration E T' upstream eb)
       \<and> hasFirstFrame (stateRef (snd (backfillIteration E T' upstream eb))))
   \<and> (hasFirstFrame (stateRef ec) \<longrightarrow>
       backfillLoop E T' upstream fuelc ec = Some (0, stateRef ec, ec)
       \<and> hasFirstFrame (stateRef (performAll E T' cs ec)))"
proof -
  have a: "\<exists>n e'. runBackfill gameId (\<lambda>t. t) T (sliceUpstream (historyTimestamps start 10000 0 N))
               fuel e = Some (n, e')
        \<and> n = (m + 9) div 10 + 1 \<and> n \<le> (N + 9) div 10 + 1
        \<and> hasFirstFrame (stateRef e')
        \<and> orderedTimestamps (stateRef e') = historyTimestamps start 10000 0 N"
    if h: "gameId \<noteq> []" "m < N"
      "orderedTimestamps (stateRef e) = historyTimestamps start 10000 m N"
      "\<not> hasFirstFrame (stateRef e)" "isMountedRef e" "\<not> backfillRunningRef e"
      "backfillCursorRef e = None" "(N + 9) div 10 + 1 \<le> fuel"
  proof -
    have le: "(m + 9) div 10 + 1 \<le> (N + 9) div 10 + 1"
      using h(2) by (simp add: div_le_mono)
    then have "(m + 9) div 10 + 1 \<le> fuel" using h(8) by simp
    from runBackfill_slice [OF h(1-7) this, of T] le show ?thesis by blast
  qed
  have b: "\<not> fst (backfillIteration E T' upstream eb)
       \<and> hasFirstFrame (stateRef (snd (backfillIteration E T' upstream eb)))"
    if "backfillCursor eb = Some cur"
      "list_all (\<lambda>targetCursor. yieldsNoFrames (fetchWithRetry upstream targetCursor 0))
            (targetTimestamps cur)"
    using backfillIteration_empty_batch [OF that, of E T']
      markHasFirstFrame_fields [of "eb\<lparr> backfillCursorRef := Some cur \<rparr>"]
    by simp
  show ?thesis
  proof (intro conjI impI)
    assume "gameId \<noteq> [] \<and> m < N
      \<and> orderedTimestamps (stateRef e) = historyTimestamps start 10000 m N
      \<and> \<not> hasFirstFrame (stateRef e) \<and> isMountedRef e \<and> \<not> backfillRunningRef e
      \<and> backfillCursorRef e = None \<and> (N + 9) div 10 + 1 \<le> fuel"
    then show "\<exists>n e'. runBackfill gameId (\<lambda>t. t) T
               (sliceUpstream (historyTimestamps start 10000 0 N)) fuel e = Some (n, e')
        \<and> n = (m + 9) div 10 + 1 \<and> n \<le> (N + 9) div 10 + 1
        \<and> hasFirstFrame (stateRef e')
        \<and> orderedTimestamps (stateRef e') = historyTimestamps start 10000 0 N"
      by (elim conjE) (rule a)
  next
    assume "backfillCursor eb = Some cur
       \<and> list_all (\<lambda>targetCursor. yieldsNoFrames (fetchWithRetry upstream targetCursor 0))
            (targetTimestamps cur)"
    then show "\<not> fst (backfillIteration E T' upstream eb)" using b by simp
  next
    assume "backfillCursor eb = Some cur
       \<and> list_all (\<lambda>targetCursor. yieldsNoFrames (fetchWithRetry upstream targetCursor 0))
            (targetTimestamps cur)"
    then show "hasFirstFrame (stateRef (snd (backfillIteration E T' upstream eb)))"
      using b by simp
  next
    assume "hasFirstFrame (stateRef ec)"
    then show "backfillLoop E T' upstream fuelc ec = Some (0, stateRef ec, ec)"
      by (rule backfillLoop_after_first_frame)
  next
    assume "hasFirstFrame (stateRef ec)"
    then show "hasFirstFrame (stateRef (performAll E T' cs ec))"
      by (rule hasFirstFrame_performAll)
  qed
qed

text \<open>
  The theorem at a history that is not aligned to the slices: two frames, at 5000 and
  15000, the later one in the index. The first batch asks for the slice from 0 and
  gets the frame at 5000, the second batch is empty.
\<close>

theorem backfill_reaches_first_frame_witness:
  "backfillOutcome
     (runBackfill ''game'' (\<lambda>t. t) isTerminalExample (sliceUpstream [5000, 15000]) 3
        (engineOf (liveStateAt [15000]))) = Some (2, True, [5000, 15000])
   \<and> \<not> fst (backfillIteration (\<lambda>t. t) isTerminalExample (sliceUpstream [0])
              (engineOf (liveStateAt [0])))
   \<and> hasFirstFrame (stateRef (snd (backfillIteration (\<lambda>t. t) isTerminalExample
        (sliceUpstream [0]) (engineOf (liveStateAt [0])))))
   \<and> backfillLoop (\<lambda>t. t) isTerminalExample (sliceUpstream [0]) 5 firstFrameEngine =
       Some (0, stateRef firstFrameEngine, firstFrameEngine)
   \<and> hasFirstFrame (stateRef (performAll (\<lambda>t. t) isTerminalExample sessionCommands
        firstFrameEngine))"
proof -
  let ?e = "engineOf (liveStateAt [15000])"
  let ?e2 = "engineOf (liveStateAt [0])"
  have h1: "''game'' \<noteq> [] \<and> (1::nat) < 2
      \<and> orderedTimestamps (stateRef ?e) = historyTimestamps 5000 10000 1 2
      \<and> \<not> hasFirstFrame (stateRef ?e) \<and> isMountedRef ?e \<and> \<not> backfillRunningRef ?e
      \<and> backfillCursorRef ?e = None \<and> ((2::nat) + 9) div 10 + 1 \<le> 3"
    by code_simp
  have h2: "backfillCursor ?e2 = Some (- 10000)
       \<and> list_all (\<lambda>targetCursor. yieldsNoFrames
                      (fetchWithRetry (sliceUpstream [0]) targetCursor 0))
            (targetTimestamps (- 10000))"
    by code_simp
  have h3: "hasFirstFrame (stateRef firstFrameEngine)"
    by (simp add: firstFrameEngine_def markHasFirstFrame_def setFrameState_def)
  have v: "historyTimestamps 5000 10000 0 2 = [5000, 15000]" "((1::nat) + 9) div 10 + 1 = 2"
    by code_simp+
  from backfill_reaches_first_frame [where gameId = "''game''" and start = 5000 and m = 1
      and N = 2 and e = ?e and fuel = 3 and T = isTerminalExample and eb = ?e2
      and cur = "- 10000" and upstream = "sliceUpstream [0]" and E = "\<lambda>t. t"
      and T' = isTerminalExample and ec = firstFrameEngine and fuelc = 5
      and cs = sessionCommands]
    h1 h2 h3
  have r: "(\<exists>n e'. runBackfill ''game'' (\<lambda>t. t) isTerminalExample
               (sliceUpstream (historyTimestamps 5000 10000 0 2)) 3 ?e = Some (n, e')
        \<and> n = (1 + 9) div 10 + 1 \<and> n \<le> (2 + 9) div 10 + 1
        \<and> hasFirstFrame (stateRef e')
        \<and> orderedTimestamps (stateRef e') = historyTimestamps 5000 10000 0 2)"
    and rest: "\<not> fst (backfillIteration (\<lambda>t. t) isTerminalExample (sliceUpstream [0]) ?e2)"
      "hasFirstFrame (stateRef (snd (backfillIteration (\<lambda>t. t) isTerminalExample
        (sliceUpstream [0]) ?e2)))"
      "backfillLoop (\<lambda>t. t) isTerminalExample (sliceUpstream [0]) 5 firstFrameEngine =
       Some (0, stateRef firstFrameEngine, firstFrameEngine)"
      "hasFirstFrame (stateRef (performAll (\<lambda>t. t) isTerminalExample sessionCommands
        firstFrameEngine))"
    by blast+
  from r obtain n e' where
    "runBackfill ''game'' (\<lambda>t. t) isTerminalExample (sliceUpstream [5000, 15000]) 3 ?e
       = Some (n, e')"
    "n = 2" "hasFirstFrame (stateRef e')"
    "orderedTimestamps (stateRef e') = [5000, 15000]"
    unfolding v by auto
  then show ?thesis using rest by (simp add: backfillOutcome_def)
qed

text \<open>
  The claim as stated fails, and so does every weaker reading the amendment rules out.
  Each run below starts \<open>runBackfill\<close> on an index that holds frames of the history
  and reports the batches issued, \<open>hasFirstFrame\<close> and the timestamps of the index.

  \<^item> Two frames 10 seconds apart, at 0 and 10000, the later one in the index: fuel for
    one batch is not enough, the run takes two (the first fetches the frame at 0, the
    second is empty and detects the start), while \<open>ceil (2 / 10) = 1\<close>.
  \<^item> Seven frames 20 seconds apart, the last one in the index: every other slice is
    empty, so a batch of ten slices brings five frames; fuel for two batches is not
    enough and the run takes three, more than \<open>ceil (7 / 10) + 1 = 2\<close>.
  \<^item> Two frames 110 seconds apart, at 0 and 110000, the later one in the index: the ten
    slices of the first batch, from 10000 to 100000, are all empty, so the run sets
    \<open>hasFirstFrame\<close> and the frame at 0 is never fetched.
  \<^item> Four frames 5 seconds apart, from 0 to 15000, the last one in the index: the first
    cursor is the slice before the one of the frame at 15000, so the frame at 10000,
    which shares that slice, is never fetched.
  \<^item> Two frames 10 seconds apart with the earlier one in the index: the loop only steps
    back in time, finds the first batch empty, and the frame at 10000 is not fetched.
  \<^item> The same history with no frame in the index: the loop is left at its head (source
    line 739), no batch is issued and \<open>hasFirstFrame\<close> stays unset.
\<close>

theorem backfill_bound_counterexample:
  "runBackfill ''game'' (\<lambda>t. t) isTerminalExample (sliceUpstream (historyTimestamps 0 10000 0 2)) 1
     (engineOf (liveStateAt [10000])) = None
   \<and> backfillOutcome
       (runBackfill ''game'' (\<lambda>t. t) isTerminalExample
          (sliceUpstream (historyTimestamps 0 10000 0 2)) 2
          (engineOf (liveStateAt [10000]))) = Some (2, True, [0, 10000])
   \<and> \<not> (2 \<le> ((2::nat) + 9) div 10)
   \<and> runBackfill ''game'' (\<lambda>t. t) isTerminalExample
        (sliceUpstream (historyTimestamps 0 20000 0 7)) 2
        (engineOf (liveStateAt [120000])) = None
   \<and> backfillOutcome
       (runBackfill ''game'' (\<lambda>t. t) isTerminalExample
          (sliceUpstream (historyTimestamps 0 20000 0 7)) 3
          (engineOf (liveStateAt [120000])))
       = Some (3, True, [0, 20000, 40000, 60000, 80000, 100000, 120000])
   \<and> \<not> (3 \<le> ((7::nat) + 9) div 10 + 1)
   \<and> backfillOutcome
       (runBackfill ''game'' (\<lambda>t. t) isTerminalExample
          (sliceUpstream (historyTimestamps 0 110000 0 2)) 5
          (engineOf (liveStateAt [110000]))) = Some (1, True, [110000])
   \<and> backfillOutcome
       (runBackfill ''game'' (\<lambda>t. t) isTerminalExample
          (sliceUpstream (historyTimestamps 0 5000 0 4)) 5
          (engineOf (liveStateAt [15000]))) = Some (2, True, [0, 5000, 15000])
   \<and> backfillOutcome
       (runBackfill ''game'' (\<lambda>t. t) isTerminalExample
          (sliceUpstream (historyTimestamps 0 10000 0 2)) 5
          (engineOf (liveStateAt [0]))) = Some (1, True, [0])
   \<and> backfillOutcome
       (runBackfill ''game'' (\<lambda>t. t) isTerminalExample
          (sliceUpstream (historyTimestamps 0 10000 0 2)) 5
          (engineOf (liveStateAt []))) = Some (0, False, [])"
  by code_simp


end
